theory Spec2Isabelle
  imports
    Complex_Main
    "HOL-Library.Char_ord"
    "HOL-Library.List_Lexorder"
    "HOL-Library.Log_Nat"
begin

section \<open>Python values\<close>

text \<open>
  \<^verbatim>\<open>fetch_articles.py\<close> works on whatever \<^verbatim>\<open>response.json()\<close> returns: \<^verbatim>\<open>None\<close>, booleans,
  unbounded integers, floats, strings, lists and dictionaries. A string is its UTF-8
  byte sequence (byte-wise lexicographic order is code-point order); a dictionary is an
  association list in insertion order, read with \<open>map_of\<close> (a parsed dictionary has no
  repeated key). A float is a binary64 value: \<open>Finite q\<close> is the double whose exact
  value is \<open>q\<close> (\<open>Finite 0\<close> is \<^verbatim>\<open>0.0\<close>), \<open>NegZero\<close> is \<^verbatim>\<open>-0.0\<close>. Outside the model
  are the interpreter's limit on the number of digits of an integer it reads or prints,
  and strings that hold a lone surrogate, which cannot be written to a file.
\<close>

datatype pyfloat = Finite rat | NegZero | PosInf | NegInf | NaN

datatype json =
    JNull
  | JBool bool
  | JInt int
  | JFloat pyfloat
  | JStr string
  | JList "json list"
  | JDict "(string \<times> json) list"

datatype error =
    AttributeError
  | TypeError
  | KeyError
  | OverflowError
  | ZeroDivisionError
  | JSONDecodeError
  | ConnectionError

text \<open>Raising is \<open>Inl\<close>; \<open>bindE\<close> runs the next statement only when nothing was raised.\<close>

definition bindE :: "error + 'a \<Rightarrow> ('a \<Rightarrow> error + 'b) \<Rightarrow> error + 'b" where
  "bindE m f = (case m of Inl e \<Rightarrow> Inl e | Inr x \<Rightarrow> f x)"

fun mapE :: "('a \<Rightarrow> error + 'b) \<Rightarrow> 'a list \<Rightarrow> error + 'b list" where
  "mapE f [] = Inr []"
| "mapE f (x # xs) = bindE (f x) (\<lambda>y. bindE (mapE f xs) (\<lambda>ys. Inr (y # ys)))"

fun foldE :: "('s \<Rightarrow> 'a \<Rightarrow> error + 's) \<Rightarrow> 'a list \<Rightarrow> 's \<Rightarrow> error + 's" where
  "foldE f [] s = Inr s"
| "foldE f (x # xs) s = bindE (f s x) (foldE f xs)"

text \<open>Truth value testing (\<^verbatim>\<open>if x\<close>, \<^verbatim>\<open>x or y\<close>).\<close>

fun truthy :: "json \<Rightarrow> bool" where
  "truthy JNull = False"
| "truthy (JBool b) = b"
| "truthy (JInt n) = (n \<noteq> 0)"
| "truthy (JFloat x) = (x \<noteq> Finite 0 \<and> x \<noteq> NegZero)"
| "truthy (JStr s) = (s \<noteq> [])"
| "truthy (JList xs) = (xs \<noteq> [])"
| "truthy (JDict kvs) = (kvs \<noteq> [])"

definition py_or :: "json \<Rightarrow> json \<Rightarrow> json" where
  "py_or a b = (if truthy a then a else b)"

text \<open>\<^verbatim>\<open>obj.get(key, default)\<close>: only a dictionary has the method.\<close>

fun py_get :: "json \<Rightarrow> string \<Rightarrow> json \<Rightarrow> error + json" where
  "py_get (JDict kvs) k d = Inr (case map_of kvs k of Some v \<Rightarrow> v | None \<Rightarrow> d)"
| "py_get _ k d = Inl AttributeError"

text \<open>\<^verbatim>\<open>obj[key]\<close> with a string key.\<close>

fun py_subscript :: "json \<Rightarrow> string \<Rightarrow> error + json" where
  "py_subscript (JDict kvs) k = (case map_of kvs k of Some v \<Rightarrow> Inr v | None \<Rightarrow> Inl KeyError)"
| "py_subscript _ k = Inl TypeError"

text \<open>
  The items a \<^verbatim>\<open>for\<close> loop or a comprehension visits: the elements of a list, the keys
  of a dictionary, the characters of a string (one-character strings; here one per byte,
  every use below calls \<^verbatim>\<open>.get\<close> on the item, which a string of any length lacks).
\<close>

fun py_iter :: "json \<Rightarrow> error + json list" where
  "py_iter (JList xs) = Inr xs"
| "py_iter (JDict kvs) = Inr (map (\<lambda>kv. JStr (fst kv)) kvs)"
| "py_iter (JStr s) = Inr (map (\<lambda>c. JStr [c]) s)"
| "py_iter _ = Inl TypeError"

section \<open>Floats\<close>

text \<open>Round to the nearest integer, ties to the even one.\<close>

definition round_half_even :: "rat \<Rightarrow> int" where
  "round_half_even x =
     (let f = \<lfloor>x\<rfloor>; d = x - of_int f
      in if d < 1 / 2 then f else if 1 / 2 < d then f + 1
         else if even f then f else f + 1)"

definition pow2 :: "int \<Rightarrow> rat" where
  "pow2 k = (if 0 \<le> k then 2 ^ nat k else 1 / 2 ^ nat (- k))"

text \<open>\<open>ilog2 x\<close> is \<open>\<lfloor>log\<^sub>2 x\<rfloor>\<close> for \<open>0 < x\<close>.\<close>

definition ilog2 :: "rat \<Rightarrow> int" where
  "ilog2 x = (if 1 \<le> x then bitlen \<lfloor>x\<rfloor> - 1 else - bitlen (\<lceil>1 / x\<rceil> - 1))"

text \<open>
  The binary64 value nearest to \<open>x\<close> (ties to even), with 53 significant bits and the
  subnormal spacing \<open>2\<^sup>-\<^sup>1\<^sup>0\<^sup>7\<^sup>4\<close> below \<open>2\<^sup>-\<^sup>1\<^sup>0\<^sup>2\<^sup>2\<close>; the exponent is not bounded above here, a
  caller compares the result with \<open>2\<^sup>1\<^sup>0\<^sup>2\<^sup>4\<close>.
\<close>

definition fl64 :: "rat \<Rightarrow> rat" where
  "fl64 x =
     (if x = 0 then 0
      else let ulp = pow2 (max (ilog2 \<bar>x\<bar>) (- 1022) - 52)
           in of_int (round_half_even (x / ulp)) * ulp)"

definition signed_zero :: "bool \<Rightarrow> pyfloat" where
  "signed_zero neg = (if neg then NegZero else Finite 0)"

definition signed_inf :: "bool \<Rightarrow> pyfloat" where
  "signed_inf neg = (if neg then NegInf else PosInf)"

fun is_neg :: "pyfloat \<Rightarrow> bool" where
  "is_neg (Finite q) = (q < 0)"
| "is_neg NegZero = True"
| "is_neg NegInf = True"
| "is_neg _ = False"

fun is_zero :: "pyfloat \<Rightarrow> bool" where
  "is_zero (Finite q) = (q = 0)"
| "is_zero NegZero = True"
| "is_zero _ = False"

text \<open>\<^verbatim>\<open>float(n)\<close> for an integer, as the mixed division converts its integer operand.\<close>

definition float_of_int :: "int \<Rightarrow> error + pyfloat" where
  "float_of_int n =
     (let r = fl64 (of_int n) in if 2 ^ 1024 \<le> \<bar>r\<bar> then Inl OverflowError else Inr (Finite r))"

text \<open>\<^verbatim>\<open>a / b\<close> on two integers: the correctly rounded quotient.\<close>

definition int_truediv :: "int \<Rightarrow> int \<Rightarrow> error + pyfloat" where
  "int_truediv a b =
     (if b = 0 then Inl ZeroDivisionError
      else let r = fl64 (of_int a / of_int b)
           in if 2 ^ 1024 \<le> \<bar>r\<bar> then Inl OverflowError
              else if r = 0 then Inr (signed_zero ((a < 0) \<noteq> (b < 0)))
              else Inr (Finite r))"

text \<open>\<^verbatim>\<open>a / b\<close> on two floats: IEEE 754 division, except that a zero divisor raises.\<close>

fun float_div :: "pyfloat \<Rightarrow> pyfloat \<Rightarrow> error + pyfloat" where
  "float_div NaN b = (if is_zero b then Inl ZeroDivisionError else Inr NaN)"
| "float_div a NaN = Inr NaN"
| "float_div a b =
     (let neg = (is_neg a \<noteq> is_neg b)
      in if is_zero b then Inl ZeroDivisionError
         else if a = PosInf \<or> a = NegInf
           then (if b = PosInf \<or> b = NegInf then Inr NaN else Inr (signed_inf neg))
         else if b = PosInf \<or> b = NegInf \<or> is_zero a then Inr (signed_zero neg)
         else (case (a, b) of
                 (Finite x, Finite y) \<Rightarrow>
                   (let r = fl64 (x / y)
                    in if 2 ^ 1024 \<le> \<bar>r\<bar> then Inr (signed_inf neg)
                       else if r = 0 then Inr (signed_zero neg)
                       else Inr (Finite r))
               | _ \<Rightarrow> Inr NaN))"

text \<open>
  \<^verbatim>\<open>round(x, 3)\<close> on a float: the exact value is rounded to three decimals (ties to
  even) and the decimal is read back as the nearest double; infinities and NaN are
  returned as they are.
\<close>

fun py_round3 :: "pyfloat \<Rightarrow> pyfloat" where
  "py_round3 (Finite x) =
     (let m = round_half_even (x * 1000)
      in if m = 0 then signed_zero (x < 0) else Finite (fl64 (of_int m / 1000)))"
| "py_round3 x = x"

text \<open>The operands \<^verbatim>\<open>/\<close> accepts: integers (booleans count as 0 and 1) and floats.\<close>

datatype number = NInt int | NFloat pyfloat

fun as_number :: "json \<Rightarrow> number option" where
  "as_number (JInt n) = Some (NInt n)"
| "as_number (JBool b) = Some (NInt (if b then 1 else 0))"
| "as_number (JFloat x) = Some (NFloat x)"
| "as_number _ = None"

fun number_div :: "number \<Rightarrow> number \<Rightarrow> error + pyfloat" where
  "number_div (NInt a) (NInt b) = int_truediv a b"
| "number_div (NInt a) (NFloat y) = bindE (float_of_int a) (\<lambda>x. float_div x y)"
| "number_div (NFloat x) (NInt b) = bindE (float_of_int b) (\<lambda>y. float_div x y)"
| "number_div (NFloat x) (NFloat y) = float_div x y"

definition py_truediv :: "json \<Rightarrow> json \<Rightarrow> error + pyfloat" where
  "py_truediv a b =
     (case (as_number a, as_number b) of
        (Some x, Some y) \<Rightarrow> number_div x y
      | _ \<Rightarrow> Inl TypeError)"

section \<open>Sets, sorting and joining\<close>

text \<open>
  Equality as a \<^verbatim>\<open>set\<close> sees it: numbers compare by value across \<^verbatim>\<open>bool\<close>, \<^verbatim>\<open>int\<close> and
  \<^verbatim>\<open>float\<close>. A number is keyed by its place on the extended line; NaN gets a key of its
  own (the parser hands out one NaN object, which a set finds again by identity).
\<close>

fun num_key :: "json \<Rightarrow> (int \<times> rat) option" where
  "num_key (JInt n) = Some (0, of_int n)"
| "num_key (JBool b) = Some (0, if b then 1 else 0)"
| "num_key (JFloat (Finite q)) = Some (0, q)"
| "num_key (JFloat NegZero) = Some (0, 0)"
| "num_key (JFloat PosInf) = Some (1, 0)"
| "num_key (JFloat NegInf) = Some (- 1, 0)"
| "num_key (JFloat NaN) = Some (2, 0)"
| "num_key _ = None"

definition py_eq :: "json \<Rightarrow> json \<Rightarrow> bool" where
  "py_eq a b =
     (case (num_key a, num_key b) of
        (Some x, Some y) \<Rightarrow> x = y
      | (None, None) \<Rightarrow> a = b
      | _ \<Rightarrow> False)"

fun hashable :: "json \<Rightarrow> bool" where
  "hashable (JList xs) = False"
| "hashable (JDict kvs) = False"
| "hashable _ = True"

text \<open>A set is the list of its members, first occurrences in insertion order.\<close>

definition set_add :: "json list \<Rightarrow> json \<Rightarrow> error + json list" where
  "set_add s x =
     (if \<not> hashable x then Inl TypeError
      else Inr (if list_ex (py_eq x) s then s else s @ [x]))"

definition py_set :: "json list \<Rightarrow> error + json list" where
  "py_set xs = foldE set_add xs []"

fun str_of :: "json \<Rightarrow> string option" where
  "str_of (JStr s) = Some s"
| "str_of _ = None"

fun key_insert :: "(int \<times> rat) \<times> json \<Rightarrow> ((int \<times> rat) \<times> json) list \<Rightarrow> ((int \<times> rat) \<times> json) list" where
  "key_insert x [] = [x]"
| "key_insert x (y # ys) =
     (if fst (fst x) < fst (fst y) \<or> (fst (fst x) = fst (fst y) \<and> snd (fst x) \<le> snd (fst y))
      then x # y # ys else y # key_insert x ys)"

text \<open>
  \<^verbatim>\<open>sorted\<close> on the members of a set. Strings sort among themselves, numbers among
  themselves; any other mix of two or more members makes a comparison fail. (Where NaN
  sits among numbers is not what Python's sort leaves; a list of numbers never reaches
  the output, see \<open>py_join\<close>.)
\<close>

definition py_sorted :: "json list \<Rightarrow> error + json list" where
  "py_sorted ys =
     (case those (map str_of ys) of
        Some ss \<Rightarrow> Inr (map JStr (sort ss))
      | None \<Rightarrow>
          (case those (map num_key ys) of
             Some ks \<Rightarrow> Inr (map snd (foldr key_insert (zip ks ys) []))
           | None \<Rightarrow> if length ys \<le> 1 then Inr ys else Inl TypeError))"

definition sorted_set :: "json list \<Rightarrow> error + json list" where
  "sorted_set xs = bindE (py_set xs) py_sorted"

fun join_str :: "string \<Rightarrow> string list \<Rightarrow> string" where
  "join_str sep [] = []"
| "join_str sep [x] = x"
| "join_str sep (x # y # ys) = x @ sep @ join_str sep (y # ys)"

text \<open>\<^verbatim>\<open>sep.join(xs)\<close>: every item must be a string.\<close>

definition py_join :: "string \<Rightarrow> json list \<Rightarrow> error + string" where
  "py_join sep xs =
     (case those (map str_of xs) of Some ss \<Rightarrow> Inr (join_str sep ss) | None \<Rightarrow> Inl TypeError)"

section \<open>The flattener: \<^verbatim>\<open>enhance_work_data\<close>\<close>

definition institution_info :: "json \<Rightarrow> error + json" where
  "institution_info inst =
     bindE (py_get inst ''id'' JNull) (\<lambda>i.
     bindE (py_get inst ''display_name'' JNull) (\<lambda>n.
     bindE (py_get inst ''country'' JNull) (\<lambda>c.
     bindE (py_get inst ''type'' JNull) (\<lambda>t.
     Inr (JDict [(''institution_id'', i), (''institution_name'', n),
                 (''country'', c), (''type'', t)])))))"

definition author_info :: "json \<Rightarrow> error + json" where
  "author_info auth =
     bindE (bindE (py_get auth ''author'' (JDict [])) (\<lambda>a. py_get a ''id'' JNull)) (\<lambda>aid.
     bindE (bindE (py_get auth ''author'' (JDict [])) (\<lambda>a. py_get a ''display_name'' JNull)) (\<lambda>name.
     bindE (bindE (py_get auth ''author'' (JDict [])) (\<lambda>a. py_get a ''orcid'' JNull)) (\<lambda>orcid.
     bindE (py_get auth ''author_position'' JNull) (\<lambda>pos.
     bindE (bindE (bindE (py_get auth ''institutions'' (JList [])) py_iter)
                  (mapE institution_info)) (\<lambda>insts.
     Inr (JDict [(''author_id'', aid), (''author_name'', name), (''orcid'', orcid),
                 (''position'', pos), (''institutions'', JList insts)]))))))"

definition add_institution :: "json list \<Rightarrow> json \<Rightarrow> error + json list" where
  "add_institution s inst =
     bindE (py_get inst ''display_name'' JNull) (\<lambda>n.
     if truthy n then set_add s n else Inr s)"

text \<open>One pass of the loop over the authorships; the state is
  \<open>(authors_list, institutions_set)\<close>.\<close>

definition authors_step :: "json list \<times> json list \<Rightarrow> json \<Rightarrow> error + json list \<times> json list" where
  "authors_step acc auth =
     bindE (author_info auth) (\<lambda>info.
     bindE (bindE (bindE (py_get auth ''institutions'' (JList [])) py_iter)
                  (\<lambda>insts. foldE add_institution insts (snd acc))) (\<lambda>s.
     Inr (fst acc @ [info], s)))"

definition authors_part :: "json \<Rightarrow> error + json list \<times> json list" where
  "authors_part work =
     bindE (bindE (py_get work ''authorships'' (JList [])) py_iter) (\<lambda>auths.
     foldE authors_step auths ([], []))"

text \<open>\<^verbatim>\<open>[topic[key].get("display_name") for topic in ... if topic.get(key)]\<close>\<close>

definition topic_name :: "string \<Rightarrow> json \<Rightarrow> error + json list" where
  "topic_name key topic =
     bindE (py_get topic key JNull) (\<lambda>f.
     if truthy f
     then bindE (py_subscript topic key) (\<lambda>g.
          bindE (py_get g ''display_name'' JNull) (\<lambda>n. Inr [n]))
     else Inr [])"

definition topic_names :: "string \<Rightarrow> json \<Rightarrow> error + json list" where
  "topic_names key work =
     bindE (bindE (py_get work ''topics'' (JList [])) py_iter) (\<lambda>ts.
     bindE (mapE (topic_name key) ts) (\<lambda>nss. Inr (concat nss)))"

definition keyword_names :: "json \<Rightarrow> error + json list" where
  "keyword_names work =
     bindE (bindE (py_get work ''concepts'' (JList [])) py_iter) (\<lambda>cs.
     bindE (mapE (\<lambda>k. py_get k ''display_name'' JNull) cs) (\<lambda>xs.
     if xs \<noteq> [] then Inr xs
     else bindE (bindE (py_get work ''keywords'' (JList [])) py_iter)
                (mapE (\<lambda>k. py_get k ''keyword'' JNull))))"

definition citation_ratio :: "json \<Rightarrow> json \<Rightarrow> error + pyfloat" where
  "citation_ratio cited refs =
     (let ref_count = py_or refs (JInt 1)
      in bindE (py_truediv (py_or cited (JInt 0)) ref_count) (\<lambda>q. Inr (py_round3 q)))"

definition journal_info :: "json \<Rightarrow> error + json option" where
  "journal_info work =
     bindE (py_get work ''primary_location'' JNull) (\<lambda>pl.
     if \<not> truthy pl then Inr None
     else bindE (bindE (py_subscript work ''primary_location'')
                       (\<lambda>p. py_get p ''source'' JNull)) (\<lambda>s.
          if \<not> truthy s then Inr None
          else bindE (bindE (py_subscript work ''primary_location'')
                            (\<lambda>p. py_subscript p ''source'')) (\<lambda>source.
               bindE (py_get source ''display_name'' JNull) (\<lambda>n.
               bindE (py_get source ''type'' JNull) (\<lambda>t.
               bindE (py_get source ''issn'' JNull) (\<lambda>i.
               bindE (py_get source ''is_oa'' JNull) (\<lambda>oa.
               Inr (Some (JDict [(''name'', n), (''type'', t), (''issn'', i),
                                 (''is_oa'', oa)])))))))))"

definition joined_or_empty :: "json list \<Rightarrow> error + string" where
  "joined_or_empty xs = (if xs \<noteq> [] then py_join '', '' xs else Inr [])"

definition research_topic :: "json \<Rightarrow> json list \<Rightarrow> json list \<Rightarrow> json list \<Rightarrow> error + string" where
  "research_topic title fields domains top_keywords =
     bindE (joined_or_empty fields) (\<lambda>f.
     bindE (joined_or_empty domains) (\<lambda>d.
     bindE (joined_or_empty top_keywords) (\<lambda>k.
     py_join '' | '' (filter truthy [title, JStr f, JStr d, JStr k]))))"

text \<open>The dictionary \<^verbatim>\<open>enhanced\<close>, entries in the order the source assigns them.\<close>

definition flat_record ::
  "json \<Rightarrow> json \<Rightarrow> json \<Rightarrow> json \<Rightarrow> json \<Rightarrow> json \<Rightarrow> json list \<Rightarrow> json list \<Rightarrow>
   json list \<Rightarrow> json list \<Rightarrow> json list \<Rightarrow> pyfloat \<Rightarrow> json option \<Rightarrow> string \<Rightarrow> json" where
  "flat_record wid title year cited refs ty authors insts fields domains keywords ratio
     journal topic =
     JDict ([(''id'', wid), (''title'', title), (''publication_year'', year),
             (''cited_by_count'', cited), (''referenced_works_count'', refs), (''type'', ty),
             (''authors'', JList authors),
             (''authors_count'', JInt (int (length authors))),
             (''institutions_count'', JInt (int (length insts))),
             (''fields'', JList fields), (''domains'', JList domains),
             (''keywords'', JList keywords),
             (''is_multidisciplinary'', JBool (1 < length fields)),
             (''top_keywords'', JList (take 5 keywords)),
             (''citation_per_reference_ratio'', JFloat ratio)]
            @ (case journal of None \<Rightarrow> [] | Some j \<Rightarrow> [(''journal'', j)])
            @ [(''research_topic'', JStr topic)])"

definition enhance_work_data :: "json \<Rightarrow> error + json" where
  "enhance_work_data work =
     bindE (py_get work ''id'' JNull) (\<lambda>wid.
     bindE (py_get work ''display_name'' JNull) (\<lambda>title.
     bindE (py_get work ''publication_year'' JNull) (\<lambda>year.
     bindE (py_get work ''cited_by_count'' JNull) (\<lambda>cited.
     bindE (py_get work ''referenced_works_count'' JNull) (\<lambda>refs.
     bindE (py_get work ''type'' JNull) (\<lambda>ty.
     bindE (authors_part work) (\<lambda>authors.
     bindE (topic_names ''field'' work) (\<lambda>fields.
     bindE (topic_names ''domain'' work) (\<lambda>domains.
     bindE (keyword_names work) (\<lambda>keywords.
     bindE (sorted_set fields) (\<lambda>sfields.
     bindE (sorted_set domains) (\<lambda>sdomains.
     bindE (sorted_set keywords) (\<lambda>skeywords.
     bindE (citation_ratio cited refs) (\<lambda>ratio.
     bindE (journal_info work) (\<lambda>journal.
     bindE (research_topic title sfields sdomains (take 5 skeywords)) (\<lambda>topic.
     Inr (flat_record wid title year cited refs ty (fst authors) (snd authors)
            sfields sdomains skeywords ratio journal topic)))))))))))))))))"

section \<open>The pager: \<^verbatim>\<open>fetch_and_save_articles\<close>\<close>

text \<open>
  The output folder of one year. A file is the list of its lines, \<open>None\<close> when it does
  not exist; a line of a \<^verbatim>\<open>.jsonl\<close> file is represented by the record \<^verbatim>\<open>json.dumps\<close>
  wrote on it (the dump of a record holds no raw line break). Per-page files and cursor
  files are indexed by the page number in their name; a cursor file holds the text
  \<^verbatim>\<open>read()\<close> returns.
\<close>

record folder =
  main_file :: "json list option"
  page_files :: "int \<Rightarrow> json list option"
  cursor_files :: "int \<Rightarrow> string option"

definition file_lines :: "'a list option \<Rightarrow> 'a list" where
  "file_lines f = (case f of None \<Rightarrow> [] | Some ls \<Rightarrow> ls)"

text \<open>What \<^verbatim>\<open>print\<close> wrote, one event per call.\<close>

datatype event =
    Fetching int int
  | HttpError int
  | Saved nat nat
  | Done nat int

text \<open>
  \<^verbatim>\<open>requests.get\<close> either raises (no response at all) or returns a response with a status
  code and a body; the body is \<open>None\<close> when \<^verbatim>\<open>response.json()\<close> raises on it. The source
  answers the \<open>n\<close>-th request of a run, for a year and a cursor.
\<close>

datatype reply = NoResponse | Response int "json option"

type_synonym source = "nat \<Rightarrow> int \<Rightarrow> json \<Rightarrow> reply"

datatype outcome = Completed | Raised error

datatype file_mode = Overwrite | Append

record run_state =
  files :: folder
  cursor :: json
  total_downloaded :: nat
  page_count :: int
  log :: "event list"
  requests :: "json list"

text \<open>\<^verbatim>\<open>str.strip()\<close>: the white space characters of Python, in UTF-8.\<close>

definition py_whitespace :: "string list" where
  "py_whitespace =
     [[CHR 0x09], [CHR 0x0A], [CHR 0x0B], [CHR 0x0C], [CHR 0x0D],
      [CHR 0x1C], [CHR 0x1D], [CHR 0x1E], [CHR 0x1F], [CHR 0x20],
      [CHR 0xC2, CHR 0x85], [CHR 0xC2, CHR 0xA0], [CHR 0xE1, CHR 0x9A, CHR 0x80],
      [CHR 0xE2, CHR 0x80, CHR 0x80], [CHR 0xE2, CHR 0x80, CHR 0x81],
      [CHR 0xE2, CHR 0x80, CHR 0x82], [CHR 0xE2, CHR 0x80, CHR 0x83],
      [CHR 0xE2, CHR 0x80, CHR 0x84], [CHR 0xE2, CHR 0x80, CHR 0x85],
      [CHR 0xE2, CHR 0x80, CHR 0x86], [CHR 0xE2, CHR 0x80, CHR 0x87],
      [CHR 0xE2, CHR 0x80, CHR 0x88], [CHR 0xE2, CHR 0x80, CHR 0x89],
      [CHR 0xE2, CHR 0x80, CHR 0x8A], [CHR 0xE2, CHR 0x80, CHR 0xA8],
      [CHR 0xE2, CHR 0x80, CHR 0xA9], [CHR 0xE2, CHR 0x80, CHR 0xAF],
      [CHR 0xE2, CHR 0x81, CHR 0x9F], [CHR 0xE3, CHR 0x80, CHR 0x80]]"

function strip_left :: "string list \<Rightarrow> string \<Rightarrow> string" where
  "strip_left ws s =
     (case filter (\<lambda>w. w \<noteq> [] \<and> take (length w) s = w) ws of
        [] \<Rightarrow> s
      | w # _ \<Rightarrow> strip_left ws (drop (length w) s))"
  by pat_completeness auto
termination
proof (relation "measure (\<lambda>(ws, s). length s)")
  show "wf (measure (\<lambda>(ws, s). length s))" by simp
next
  fix ws :: "string list" and s w :: string and rest
  assume "filter (\<lambda>w. w \<noteq> [] \<and> take (length w) s = w) ws = w # rest"
  then have "w \<in> set (filter (\<lambda>w. w \<noteq> [] \<and> take (length w) s = w) ws)" by simp
  then have w: "w \<noteq> []" "take (length w) s = w" by auto
  then have "s \<noteq> []" by auto
  with w show "((ws, drop (length w) s), (ws, s)) \<in> measure (\<lambda>(ws, s). length s)"
    by simp
qed

definition py_strip :: "string \<Rightarrow> string" where
  "py_strip s = rev (strip_left (map rev py_whitespace) (rev (strip_left py_whitespace s)))"

text \<open>
  Resume mode (lines 28 to 48): the cursor of the first request, \<open>total_downloaded\<close>,
  \<open>page_count\<close> and the mode the cumulative file is opened in.
\<close>

definition resume_setup :: "folder \<Rightarrow> int option \<Rightarrow> json \<times> nat \<times> int \<times> file_mode" where
  "resume_setup fs resume_from_page =
     (case resume_from_page of
        None \<Rightarrow> (JStr ''*'', 0, 0, Overwrite)
      | Some r \<Rightarrow>
          if r = 0 then (JStr ''*'', 0, 0, Overwrite)
          else (let last_page = r - 1
                in case cursor_files fs last_page of
                     Some text \<Rightarrow>
                       (JStr (py_strip text),
                        sum_list (map (\<lambda>i. length (file_lines (page_files fs i))) [1..r - 1]),
                        last_page, Append)
                   | None \<Rightarrow> (JStr ''*'', 0, 0, Overwrite)))"

definition open_main :: "file_mode \<Rightarrow> folder \<Rightarrow> folder" where
  "open_main mode fs =
     (case mode of
        Overwrite \<Rightarrow> fs\<lparr>main_file := Some []\<rparr>
      | Append \<Rightarrow> fs\<lparr>main_file := Some (file_lines (main_file fs))\<rparr>)"

text \<open>One record of page \<open>p\<close>: the same line goes to the page file and the cumulative file.\<close>

definition write_line :: "int \<Rightarrow> json \<Rightarrow> folder \<Rightarrow> folder" where
  "write_line p line fs =
     fs\<lparr>page_files := (page_files fs)(p := Some (file_lines (page_files fs p) @ [line])),
        main_file := Some (file_lines (main_file fs) @ [line])\<rparr>"

fun write_works :: "int \<Rightarrow> json list \<Rightarrow> folder \<Rightarrow> folder \<times> error option" where
  "write_works p [] fs = (fs, None)"
| "write_works p (work # works) fs =
     (case enhance_work_data work of
        Inl e \<Rightarrow> (fs, Some e)
      | Inr enhanced \<Rightarrow> write_works p works (write_line p enhanced fs))"

text \<open>
  What \<^verbatim>\<open>read()\<close> returns of a text that was written to a file (on a POSIX system):
  every \<^verbatim>\<open>\r\n\<close> and every other \<^verbatim>\<open>\r\<close> comes back as \<^verbatim>\<open>\n\<close>.
\<close>

fun universal_newlines :: "string \<Rightarrow> string" where
  "universal_newlines [] = []"
| "universal_newlines [c] = [if c = CHR 0x0D then CHR 0x0A else c]"
| "universal_newlines (c # d # s) =
     (if c = CHR 0x0D
      then CHR 0x0A # (if d = CHR 0x0A then universal_newlines s
                       else universal_newlines (d # s))
      else c # universal_newlines (d # s))"

text \<open>
  The body of the loop after a 200 response (lines 62 to 84), for page \<open>p\<close>: the state
  it leaves and either the exception raised or whether there are more pages.
\<close>

definition save_page :: "int \<Rightarrow> json \<Rightarrow> run_state \<Rightarrow> run_state \<times> (error + bool)" where
  "save_page p data st =
     (case py_get data ''results'' (JList []) of
        Inl e \<Rightarrow> (st, Inl e)
      | Inr results \<Rightarrow>
          let opened = (files st)\<lparr>page_files := (page_files (files st))(p := Some [])\<rparr>
          in case py_iter results of
               Inl e \<Rightarrow> (st\<lparr>files := opened\<rparr>, Inl e)
             | Inr works \<Rightarrow>
                 (case write_works p works opened of
                    (fs, Some e) \<Rightarrow> (st\<lparr>files := fs\<rparr>, Inl e)
                  | (fs, None) \<Rightarrow>
                      let downloaded = total_downloaded st + length works;
                          st1 = st\<lparr>files := fs, total_downloaded := downloaded,
                                   log := log st @ [Saved (length works) downloaded]\<rparr>
                      in case bindE (py_subscript data ''meta'')
                                    (\<lambda>meta. py_get meta ''next_cursor'' JNull) of
                           Inl e \<Rightarrow> (st1, Inl e)
                         | Inr next_cursor \<Rightarrow>
                             if truthy next_cursor
                             then (case next_cursor of
                                     JStr text \<Rightarrow>
                                       (st1\<lparr>cursor := next_cursor,
                                            files := fs\<lparr>cursor_files :=
                                              (cursor_files fs)(p := Some (universal_newlines text))\<rparr>\<rparr>,
                                        Inr True)
                                   | _ \<Rightarrow>
                                       (st1\<lparr>cursor := next_cursor,
                                            files := fs\<lparr>cursor_files :=
                                              (cursor_files fs)(p := Some [])\<rparr>\<rparr>,
                                        Inl TypeError))
                             else (st1, Inr False)))"

text \<open>
  The \<^verbatim>\<open>while\<close> loop. The source may hand out cursors for ever, so the loop takes the
  number of iterations it may run and returns \<open>None\<close> when they do not suffice.
\<close>

fun pager_loop :: "nat \<Rightarrow> source \<Rightarrow> int \<Rightarrow> run_state \<Rightarrow> (run_state \<times> outcome) option" where
  "pager_loop 0 src year st = None"
| "pager_loop (Suc n) src year st =
     (let p = page_count st + 1;
          st1 = st\<lparr>page_count := p, log := log st @ [Fetching p year],
                  requests := requests st @ [cursor st]\<rparr>
      in case src (length (requests st)) year (cursor st) of
           NoResponse \<Rightarrow> Some (st1, Raised ConnectionError)
         | Response status_code body \<Rightarrow>
             if status_code \<noteq> 200
             then Some (st1\<lparr>log := log st1 @ [HttpError status_code]\<rparr>, Completed)
             else (case body of
                     None \<Rightarrow> Some (st1, Raised JSONDecodeError)
                   | Some data \<Rightarrow>
                       (case save_page p data st1 of
                          (st2, Inl e) \<Rightarrow> Some (st2, Raised e)
                        | (st2, Inr has_more_pages) \<Rightarrow>
                            if has_more_pages then pager_loop n src year st2
                            else Some (st2, Completed))))"

text \<open>The state the loop starts in, with the cumulative file opened.\<close>

definition start_state :: "folder \<Rightarrow> int option \<Rightarrow> run_state" where
  "start_state fs resume_from_page =
     (case resume_setup fs resume_from_page of
        (start_cursor, downloaded, page, mode) \<Rightarrow>
          \<lparr>files = open_main mode fs, cursor = start_cursor, total_downloaded = downloaded,
           page_count = page, log = [], requests = []\<rparr>)"

text \<open>After the loop: the closing message, unless an exception is on its way out.\<close>

definition finish_run :: "int \<Rightarrow> (run_state \<times> outcome) option \<Rightarrow> (run_state \<times> outcome) option" where
  "finish_run year res =
     (case res of
        None \<Rightarrow> None
      | Some (st, Completed) \<Rightarrow>
          Some (st\<lparr>log := log st @ [Done (total_downloaded st) year]\<rparr>, Completed)
      | Some (st, Raised e) \<Rightarrow> Some (st, Raised e))"

definition fetch_and_save_articles ::
  "nat \<Rightarrow> source \<Rightarrow> folder \<Rightarrow> int \<Rightarrow> int option \<Rightarrow> (run_state \<times> outcome) option" where
  "fetch_and_save_articles fuel src fs year resume_from_page =
     finish_run year (pager_loop fuel src year (start_state fs resume_from_page))"

section \<open>Reading records, files and logs\<close>

text \<open>The value a dictionary holds under a key, if any.\<close>

definition lookup :: "json \<Rightarrow> string \<Rightarrow> json option" where
  "lookup obj k = (case obj of JDict kvs \<Rightarrow> map_of kvs k | _ \<Rightarrow> None)"

text \<open>\<open>attr k obj\<close> is \<^verbatim>\<open>obj.get(k)\<close> where \<open>obj\<close> is a dictionary, \<^verbatim>\<open>None\<close> elsewhere.\<close>

definition attr :: "string \<Rightarrow> json \<Rightarrow> json" where
  "attr k obj = (case lookup obj k of Some v \<Rightarrow> v | None \<Rightarrow> JNull)"

text \<open>The entries of the list a dictionary holds under a key; none when it holds no list.\<close>

definition entries :: "json \<Rightarrow> string \<Rightarrow> json list" where
  "entries obj k = (case lookup obj k of Some (JList xs) \<Rightarrow> xs | _ \<Rightarrow> [])"

fun is_saved :: "event \<Rightarrow> bool" where
  "is_saved (Saved k t) = True"
| "is_saved _ = False"

text \<open>The pages a run saved in full: one \<open>Saved\<close> message each.\<close>

definition saved_pages :: "event list \<Rightarrow> nat" where
  "saved_pages evs = length (filter is_saved evs)"

definition cumulative_lines :: "folder \<Rightarrow> nat" where
  "cumulative_lines fs = length (file_lines (main_file fs))"

text \<open>The lines of the per-page files \<open>i\<close> to \<open>j\<close> together; a missing file has none.\<close>

definition page_lines :: "folder \<Rightarrow> int \<Rightarrow> int \<Rightarrow> nat" where
  "page_lines fs i j = sum_list (map (\<lambda>n. length (file_lines (page_files fs n))) [i..j])"

text \<open>The field of the record the flattener returned; none when it raised.\<close>

definition flat_field :: "string \<Rightarrow> error + json \<Rightarrow> json option" where
  "flat_field k res = (case res of Inr flat \<Rightarrow> lookup flat k | Inl e \<Rightarrow> None)"

text \<open>
  The key under which a set files a member: equal numbers share a key, anything else is
  its own key.
\<close>

definition eq_key :: "json \<Rightarrow> (int \<times> rat) + json" where
  "eq_key x = (case num_key x of Some k \<Rightarrow> Inl k | None \<Rightarrow> Inr x)"

text \<open>
  The names the spec has the keyword list drawn from: \<^verbatim>\<open>concepts[].display_name\<close>, and
  \<^verbatim>\<open>keywords[].keyword\<close> when there are no concepts; likewise the names of the topics'
  fields and domains.
\<close>

definition spec_keywords :: "json \<Rightarrow> json list" where
  "spec_keywords work =
     (if entries work ''concepts'' \<noteq> []
      then map (attr ''display_name'') (entries work ''concepts'')
      else map (attr ''keyword'') (entries work ''keywords''))"

definition spec_topic_names :: "string \<Rightarrow> json \<Rightarrow> json list" where
  "spec_topic_names key work =
     map (\<lambda>topic. attr ''display_name'' (attr key topic))
         (filter (\<lambda>topic. truthy (attr key topic)) (entries work ''topics''))"

text \<open>The text of a title: a string counts, anything else contributes nothing.\<close>

definition title_text :: "json \<Rightarrow> string" where
  "title_text title = (case title of JStr s \<Rightarrow> s | _ \<Rightarrow> [])"

text \<open>A count as the source delivers it: a non-negative integer, or nothing.\<close>

fun is_count :: "json \<Rightarrow> bool" where
  "is_count JNull = True"
| "is_count (JInt n) = (0 \<le> n)"
| "is_count _ = False"

fun count_of :: "json \<Rightarrow> int" where
  "count_of (JInt n) = n"
| "count_of _ = 0"

text \<open>The entry the flattener lists for one institution of an authorship.\<close>

definition institution_entry :: "json \<Rightarrow> json" where
  "institution_entry inst =
     JDict [(''institution_id'', attr ''id'' inst),
            (''institution_name'', attr ''display_name'' inst),
            (''country'', attr ''country'' inst), (''type'', attr ''type'' inst)]"

text \<open>The truthy display names of all institutions of all authorships of a record.\<close>

definition institution_names :: "json \<Rightarrow> json set" where
  "institution_names work =
     {n. \<exists>auth \<in> set (entries work ''authorships'').
           \<exists>inst \<in> set (entries auth ''institutions'').
             n = attr ''display_name'' inst \<and> truthy n}"



text \<open>
  A record of the shape the source delivers. The authorships, topics, concepts and
  keywords are lists of objects when they are there; an author is an object; the
  institutions of an authorship are a list of objects whose display name, when truthy,
  can be put into a set; a topic's field and domain are missing or empty, or objects with
  a string as display name; concepts have a string as display name, and so have the
  keywords their name when there is no concept; the title is a string or falsy; the counts
  are counts, the citation count within the range of a float; the primary location and
  its source are missing or empty, or objects.
\<close>

fun is_dict :: "json \<Rightarrow> bool" where
  "is_dict (JDict kvs) = True"
| "is_dict _ = False"

definition absent_or_list :: "(json \<Rightarrow> bool) \<Rightarrow> json option \<Rightarrow> bool" where
  "absent_or_list P v =
     (case v of None \<Rightarrow> True | Some (JList xs) \<Rightarrow> list_all P xs | Some _ \<Rightarrow> False)"

definition has_str :: "string \<Rightarrow> json \<Rightarrow> bool" where
  "has_str k obj = (case lookup obj k of Some (JStr s) \<Rightarrow> True | _ \<Rightarrow> False)"

definition well_formed_institution :: "json \<Rightarrow> bool" where
  "well_formed_institution inst \<longleftrightarrow>
     is_dict inst \<and>
     (truthy (attr ''display_name'' inst) \<and> hashable (attr ''display_name'' inst) \<or>
      \<not> truthy (attr ''display_name'' inst))"

definition well_formed_authorship :: "json \<Rightarrow> bool" where
  "well_formed_authorship auth \<longleftrightarrow>
     is_dict auth \<and>
     (case lookup auth ''author'' of None \<Rightarrow> True | Some a \<Rightarrow> is_dict a) \<and>
     absent_or_list well_formed_institution (lookup auth ''institutions'')"

definition named_or_empty :: "json \<Rightarrow> bool" where
  "named_or_empty obj \<longleftrightarrow> truthy obj \<and> has_str ''display_name'' obj \<or> \<not> truthy obj"

definition well_formed_topic :: "json \<Rightarrow> bool" where
  "well_formed_topic topic \<longleftrightarrow>
     is_dict topic \<and> named_or_empty (attr ''field'' topic) \<and>
     named_or_empty (attr ''domain'' topic)"

definition well_formed :: "json \<Rightarrow> bool" where
  "well_formed work \<longleftrightarrow>
     is_dict work \<and>
     absent_or_list well_formed_authorship (lookup work ''authorships'') \<and>
     absent_or_list well_formed_topic (lookup work ''topics'') \<and>
     absent_or_list (has_str ''display_name'') (lookup work ''concepts'') \<and>
     (entries work ''concepts'' = [] \<and>
        absent_or_list (has_str ''keyword'') (lookup work ''keywords'') \<or>
      entries work ''concepts'' \<noteq> []) \<and>
     (truthy (attr ''display_name'' work) \<and> str_of (attr ''display_name'' work) \<noteq> None \<or>
      \<not> truthy (attr ''display_name'' work)) \<and>
     is_count (attr ''cited_by_count'' work) \<and>
     count_of (attr ''cited_by_count'' work) < 2 ^ 1023 \<and>
     is_count (attr ''referenced_works_count'' work) \<and>
     (truthy (attr ''primary_location'' work) \<and> is_dict (attr ''primary_location'' work) \<and>
        (truthy (attr ''source'' (attr ''primary_location'' work)) \<and>
           is_dict (attr ''source'' (attr ''primary_location'' work)) \<or>
         \<not> truthy (attr ''source'' (attr ''primary_location'' work))) \<or>
      \<not> truthy (attr ''primary_location'' work))"

text \<open>What a run left behind: how it ended, the lines of the cumulative file, the lines
  of the listed per-page files, and \<open>total_downloaded\<close>.\<close>

definition run_summary ::
  "int list \<Rightarrow> (run_state \<times> outcome) option \<Rightarrow> (outcome \<times> nat \<times> nat list \<times> nat) option" where
  "run_summary pages res =
     map_option (\<lambda>r. (snd r, cumulative_lines (files (fst r)),
                       map (\<lambda>i. length (file_lines (page_files (files (fst r)) i))) pages,
                       total_downloaded (fst r))) res"

section \<open>Sample inputs\<close>

definition empty_folder :: folder where
  "empty_folder = \<lparr>main_file = None, page_files = (\<lambda>i. None), cursor_files = (\<lambda>i. None)\<rparr>"

text \<open>The line written for the record \<^verbatim>\<open>{}\<close>.\<close>

definition blank_line :: json where
  "blank_line =
     flat_record JNull JNull JNull JNull JNull JNull [] [] [] [] [] (Finite 0) None []"

definition page_reply :: "json list \<Rightarrow> json \<Rightarrow> reply" where
  "page_reply works next_cursor =
     Response 200 (Some (JDict [(''results'', JList works),
                                (''meta'', JDict [(''next_cursor'', next_cursor)])]))"

text \<open>A source of two pages: one record and the cursor \<^verbatim>\<open>C1\<close>, then two records and no
  cursor.\<close>

definition two_page_source :: source where
  "two_page_source n year c =
     (if c = JStr ''*'' then page_reply [JDict []] (JStr ''C1'')
      else if c = JStr ''C1'' then page_reply [JDict [], JDict []] JNull
      else Response 404 None)"



text \<open>A record whose only topic has a field without a display name.\<close>

definition nameless_field_work :: json where
  "nameless_field_work =
     JDict [(''topics'', JList [JDict [(''field'', JDict [(''id'', JStr ''F1'')])]])]"





text \<open>One author with two institutions, one of them without a display name, the other
  with an empty one.\<close>

definition unnamed_institutions_work :: json where
  "unnamed_institutions_work =
     JDict [(''authorships'',
             JList [JDict [(''institutions'',
                            JList [JDict [(''id'', JStr ''I1'')],
                                   JDict [(''id'', JStr ''I2''),
                                          (''display_name'', JStr [])]])]])]"

definition unnamed_institutions_flat :: json where
  "unnamed_institutions_flat =
     flat_record JNull JNull JNull JNull JNull JNull
       [JDict [(''author_id'', JNull), (''author_name'', JNull), (''orcid'', JNull),
               (''position'', JNull),
               (''institutions'',
                JList [JDict [(''institution_id'', JStr ''I1''),
                              (''institution_name'', JNull), (''country'', JNull),
                              (''type'', JNull)],
                       JDict [(''institution_id'', JStr ''I2''),
                              (''institution_name'', JStr []), (''country'', JNull),
                              (''type'', JNull)]])]]
       [] [] [] [] (Finite 0) None []"

text \<open>
  A fuller record: two authors who share one institution, a second named institution and
  one without a name; three topics with two fields and two domains between them; seven
  concepts out of order, one of them twice, and a keyword that must not be used.
\<close>

definition rich_work :: json where
  "rich_work =
     JDict [(''id'', JStr ''W1''), (''display_name'', JStr ''Title''),
            (''cited_by_count'', JInt 3), (''referenced_works_count'', JInt 2),
            (''authorships'',
             JList [JDict [(''author'', JDict [(''id'', JStr ''A1'')]),
                           (''institutions'',
                            JList [JDict [(''display_name'', JStr ''MIT'')],
                                   JDict [(''id'', JStr ''I2'')]])],
                    JDict [(''institutions'',
                            JList [JDict [(''display_name'', JStr ''MIT'')],
                                   JDict [(''display_name'', JStr ''ETH'')]])]]),
            (''topics'',
             JList [JDict [(''field'', JDict [(''display_name'', JStr ''Physics'')]),
                           (''domain'', JDict [(''display_name'', JStr ''Science'')])],
                    JDict [(''field'', JDict [(''display_name'', JStr ''Biology'')]),
                           (''domain'', JDict [(''display_name'', JStr ''Science'')])],
                    JDict [(''field'', JDict [(''display_name'', JStr ''Physics'')]),
                           (''domain'', JDict [(''display_name'', JStr ''Health'')])]]),
            (''concepts'',
             JList [JDict [(''display_name'', JStr ''g'')],
                    JDict [(''display_name'', JStr ''c'')],
                    JDict [(''display_name'', JStr ''a'')],
                    JDict [(''display_name'', JStr ''f'')],
                    JDict [(''display_name'', JStr ''c'')],
                    JDict [(''display_name'', JStr ''b'')],
                    JDict [(''display_name'', JStr ''e'')],
                    JDict [(''display_name'', JStr ''d'')]]),
            (''keywords'', JList [JDict [(''keyword'', JStr ''unused'')]])]"

definition rich_flat :: json where
  "rich_flat =
     flat_record (JStr ''W1'') (JStr ''Title'') JNull (JInt 3) (JInt 2) JNull
       [JDict [(''author_id'', JStr ''A1''), (''author_name'', JNull), (''orcid'', JNull),
               (''position'', JNull),
               (''institutions'',
                JList [JDict [(''institution_id'', JNull),
                              (''institution_name'', JStr ''MIT''), (''country'', JNull),
                              (''type'', JNull)],
                       JDict [(''institution_id'', JStr ''I2''),
                              (''institution_name'', JNull), (''country'', JNull),
                              (''type'', JNull)]])],
        JDict [(''author_id'', JNull), (''author_name'', JNull), (''orcid'', JNull),
               (''position'', JNull),
               (''institutions'',
                JList [JDict [(''institution_id'', JNull),
                              (''institution_name'', JStr ''MIT''), (''country'', JNull),
                              (''type'', JNull)],
                       JDict [(''institution_id'', JNull),
                              (''institution_name'', JStr ''ETH''), (''country'', JNull),
                              (''type'', JNull)]])]]
       [JStr ''MIT'', JStr ''ETH'']
       [JStr ''Biology'', JStr ''Physics''] [JStr ''Health'', JStr ''Science'']
       [JStr ''a'', JStr ''b'', JStr ''c'', JStr ''d'', JStr ''e'', JStr ''f'', JStr ''g'']
       (Finite (3 / 2)) None
       ''Title | Biology, Physics | Health, Science | a, b, c, d, e''"

definition failing_source :: source where
  "failing_source n year c = Response 503 None"

text \<open>The folder after a run over \<open>two_page_source\<close> that was cut after page 1, and the
  folder after a run that went through both pages.\<close>

definition after_page_one :: folder where
  "after_page_one =
     \<lparr>main_file = Some [blank_line],
      page_files = (\<lambda>i. if i = 1 then Some [blank_line] else None),
      cursor_files = (\<lambda>i. if i = 1 then Some ''C1'' else None)\<rparr>"

definition after_both_pages :: folder where
  "after_both_pages =
     \<lparr>main_file = Some [blank_line, blank_line, blank_line],
      page_files = (\<lambda>i. if i = 1 then Some [blank_line]
                         else if i = 2 then Some [blank_line, blank_line] else None),
      cursor_files = (\<lambda>i. if i = 1 then Some ''C1'' else None)\<rparr>"

section \<open>Basic facts\<close>

lemma bindE_Inr_iff: "bindE m f = Inr y \<longleftrightarrow> (\<exists>x. m = Inr x \<and> f x = Inr y)"
  by (cases m) (simp_all add: bindE_def)

lemma bindE_simps [simp]: "bindE (Inr x) f = f x" "bindE (Inl e) f = Inl e"
  by (simp_all add: bindE_def)

section \<open>The pager\<close>

text \<open>
  Claim C5. Whatever the loop has done so far, a response whose status is not 200 ends it
  at once: the status code is printed, the request is not repeated, every file is as the
  earlier pages left it, and the loop is left by \<^verbatim>\<open>break\<close>, not by an exception; the
  function then prints its closing message and returns.
\<close>

theorem non_200_halts:
  assumes "src (length (requests st)) year (cursor st) = Response status_code body"
    and "status_code \<noteq> 200"
  shows "pager_loop (Suc n) src year st =
           Some (st\<lparr>page_count := page_count st + 1,
                    log := log st @ [Fetching (page_count st + 1) year, HttpError status_code],
                    requests := requests st @ [cursor st]\<rparr>, Completed) \<and>
         finish_run year (pager_loop (Suc n) src year st) =
           Some (st\<lparr>page_count := page_count st + 1,
                    log := log st @ [Fetching (page_count st + 1) year, HttpError status_code,
                                     Done (total_downloaded st) year],
                    requests := requests st @ [cursor st]\<rparr>, Completed)"
  using assms by (simp add: Let_def finish_run_def)

text \<open>Every line written goes to the page file and to the cumulative file alike.\<close>

lemma write_works_lines:
  "write_works p ws fs = (fs', r) \<Longrightarrow>
     \<exists>new. file_lines (main_file fs') = file_lines (main_file fs) @ new \<and>
           file_lines (page_files fs' p) = file_lines (page_files fs p) @ new \<and>
           (\<forall>q. q \<noteq> p \<longrightarrow> page_files fs' q = page_files fs q) \<and>
           cursor_files fs' = cursor_files fs \<and>
           (r = None \<longrightarrow> length new = length ws)"
proof (induction ws arbitrary: fs)
  case Nil
  then show ?case by simp
next
  case (Cons w ws)
  show ?case
  proof (cases "enhance_work_data w")
    case (Inl e)
    with Cons.prems show ?thesis by (intro exI[of _ "[]"]) auto
  next
    case (Inr rec)
    with Cons.prems have "write_works p ws (write_line p rec fs) = (fs', r)" by simp
    from Cons.IH[OF this] obtain new where
      "file_lines (main_file fs') = file_lines (main_file (write_line p rec fs)) @ new"
      "file_lines (page_files fs' p) = file_lines (page_files (write_line p rec fs) p) @ new"
      "\<forall>q. q \<noteq> p \<longrightarrow> page_files fs' q = page_files (write_line p rec fs) q"
      "cursor_files fs' = cursor_files (write_line p rec fs)"
      "r = None \<longrightarrow> length new = length ws" by blast
    then show ?thesis
      by (intro exI[of _ "rec # new"]) (simp add: write_line_def file_lines_def)
  qed
qed

lemma save_page_more:
  assumes "save_page p data st = (st', Inr continue)"
  shows "file_lines (main_file (files st')) =
           file_lines (main_file (files st)) @ file_lines (page_files (files st') p)"
    and "\<forall>q. q \<noteq> p \<longrightarrow> page_files (files st') q = page_files (files st) q"
    and "page_count st' = page_count st"
    and "requests st' = requests st"
    and "\<exists>k t. log st' = log st @ [Saved k t]"
    and "total_downloaded st' = total_downloaded st + length (file_lines (page_files (files st') p))"
proof -
  from assms obtain results where res: "py_get data ''results'' (JList []) = Inr results"
    by (auto simp: save_page_def split: sum.splits)
  define opened where "opened = (files st)\<lparr>page_files := (page_files (files st))(p := Some [])\<rparr>"
  from assms res obtain works where works: "py_iter results = Inr works"
    by (auto simp: save_page_def Let_def split: sum.splits)
  from assms res works obtain fs where ww: "write_works p works opened = (fs, None)"
    by (auto simp: save_page_def Let_def opened_def split: sum.splits prod.splits option.splits)
  from write_works_lines[OF ww] obtain new where new:
    "file_lines (main_file fs) = file_lines (main_file opened) @ new"
    "file_lines (page_files fs p) = file_lines (page_files opened p) @ new"
    "\<forall>q. q \<noteq> p \<longrightarrow> page_files fs q = page_files opened q"
    "length new = length works" by blast
  from assms res works ww have st':
    "main_file (files st') = main_file fs" "page_files (files st') = page_files fs"
    "page_count st' = page_count st" "requests st' = requests st"
    "log st' = log st @ [Saved (length works) (total_downloaded st + length works)]"
    "total_downloaded st' = total_downloaded st + length works"
    by (auto simp: save_page_def Let_def opened_def[symmetric]
        split: sum.splits if_splits json.splits)
  from new st' show "file_lines (main_file (files st')) =
           file_lines (main_file (files st)) @ file_lines (page_files (files st') p)"
    by (simp add: opened_def file_lines_def)
  from new st' show "\<forall>q. q \<noteq> p \<longrightarrow> page_files (files st') q = page_files (files st) q"
    by (simp add: opened_def)
  from st' show "page_count st' = page_count st" "requests st' = requests st" by simp_all
  from st' show "\<exists>k t. log st' = log st @ [Saved k t]" by blast
  from new st' show "total_downloaded st' = total_downloaded st + length (file_lines (page_files (files st') p))"
    by (simp add: opened_def file_lines_def)
qed


lemma upto_shift: "i \<le> j \<Longrightarrow> [i..j] = i # [i + 1..j]"
  by (simp add: upto_rec1)

lemma pager_loop_completed:
  "pager_loop n src year st = Some (st', Completed) \<Longrightarrow>
     \<exists>evs. log st' = log st @ evs \<and>
       file_lines (main_file (files st')) =
         file_lines (main_file (files st)) @
         concat (map (\<lambda>i. file_lines (page_files (files st') i))
                   [page_count st + 1..page_count st + int (saved_pages evs)]) \<and>
       (\<forall>q. q \<le> page_count st \<longrightarrow> page_files (files st') q = page_files (files st) q)"
proof (induction n arbitrary: st)
  case 0
  then show ?case by simp
next
  case (Suc n)
  define p where "p = page_count st + 1"
  define st1 where "st1 = st\<lparr>page_count := p, log := log st @ [Fetching p year],
                  requests := requests st @ [cursor st]\<rparr>"
  show ?case
  proof (cases "src (length (requests st)) year (cursor st)")
    case NoResponse
    with Suc.prems show ?thesis by (simp add: Let_def)
  next
    case (Response code body)
    show ?thesis
    proof (cases "code = 200")
      case False
      with Suc.prems Response have "st' = st1\<lparr>log := log st1 @ [HttpError code]\<rparr>"
        by (simp add: Let_def st1_def p_def)
      then show ?thesis
        by (intro exI[of _ "[Fetching p year, HttpError code]"])
           (simp add: st1_def saved_pages_def)
    next
      case True
      with Suc.prems Response obtain data where body: "body = Some data"
        by (cases body) (simp_all add: Let_def)
      obtain st2 r where sp: "save_page p data st1 = (st2, r)" by (cases "save_page p data st1")
      with Suc.prems Response True body obtain continue where r: "r = Inr continue"
        by (cases r) (simp_all add: Let_def st1_def[symmetric] p_def[symmetric])
      note facts = save_page_more[OF sp[unfolded r]]
      from facts(5) obtain k t where log2: "log st2 = log st1 @ [Saved k t]" by blast
      have main2: "file_lines (main_file (files st2)) =
          file_lines (main_file (files st)) @ file_lines (page_files (files st2) p)"
        using facts(1) by (simp add: st1_def)
      have other2: "\<forall>q. q \<noteq> p \<longrightarrow> page_files (files st2) q = page_files (files st) q"
        using facts(2) by (simp add: st1_def)
      have pc2: "page_count st2 = p" using facts(3) by (simp add: st1_def)
      show ?thesis
      proof (cases continue)
        case False
        with Suc.prems Response True body sp r have "st' = st2"
          by (simp add: Let_def st1_def[symmetric] p_def[symmetric])
        with main2 other2 log2 show ?thesis
          by (intro exI[of _ "[Fetching p year, Saved k t]"])
             (simp add: st1_def saved_pages_def p_def)
      next
        case True
        with Suc.prems Response \<open>code = 200\<close> body sp r
        have "pager_loop n src year st2 = Some (st', Completed)"
          by (simp add: Let_def st1_def[symmetric] p_def[symmetric])
        from Suc.IH[OF this] obtain evs where evs: "log st' = log st2 @ evs"
          and main': "file_lines (main_file (files st')) =
             file_lines (main_file (files st2)) @
             concat (map (\<lambda>i. file_lines (page_files (files st') i))
                   [page_count st2 + 1..page_count st2 + int (saved_pages evs)])"
          and keep: "\<forall>q. q \<le> page_count st2 \<longrightarrow> page_files (files st') q = page_files (files st2) q"
          by blast
        have samep: "page_files (files st') p = page_files (files st2) p"
          using keep pc2 by simp
        have sv: "saved_pages ([Fetching p year, Saved k t] @ evs) = Suc (saved_pages evs)"
          by (simp add: saved_pages_def)
        have rng: "[page_count st + 1..page_count st + int (Suc (saved_pages evs))] =
            p # [p + 1..p + int (saved_pages evs)]"
          by (subst upto_shift) (simp_all add: p_def add.commute add.left_commute)
        have keep': "\<forall>q. q \<le> page_count st \<longrightarrow> page_files (files st') q = page_files (files st) q"
          using keep other2 pc2 by (simp add: p_def)
        show ?thesis
          apply (intro exI[of _ "[Fetching p year, Saved k t] @ evs"])
          unfolding sv rng
          using evs log2 main' main2 samep keep' pc2
          by (simp add: st1_def)
      qed
    qed
  qed
qed



named_theorems run_defs

lemmas [run_defs] = fetch_and_save_articles_def start_state_def resume_setup_def open_main_def
  finish_run_def save_page_def write_line_def file_lines_def run_summary_def cumulative_lines_def
  page_lines_def saved_pages_def Let_def

lemma citation_ratio_absent: "citation_ratio JNull JNull = Inr (Finite 0)"
  by (simp add: citation_ratio_def py_or_def py_truediv_def int_truediv_def fl64_def
      signed_zero_def round_half_even_def)

lemma enhance_blank: "enhance_work_data (JDict []) = Inr blank_line"
  by (simp add: enhance_work_data_def authors_part_def topic_names_def keyword_names_def
      sorted_set_def py_set_def py_sorted_def citation_ratio_absent journal_info_def
      research_topic_def joined_or_empty_def py_join_def blank_line_def)

lemma strip_C1: "py_strip ''C1'' = ''C1''"
  by code_simp

lemma newlines_C1: "universal_newlines ''C1'' = ''C1''"
  by simp

lemma resume_setup_sum:
  "resume_setup fs resume = (c, t, s, mode) \<Longrightarrow>
     t = page_lines fs 1 s \<and> (mode = Overwrite \<longrightarrow> s = 0)"
  by (auto simp: resume_setup_def page_lines_def Let_def split: option.splits if_splits)

lemma finish_run_completed:
  "finish_run year res = Some (st, Completed) \<Longrightarrow>
     \<exists>st0. res = Some (st0, Completed) \<and> st = st0\<lparr>log := log st0 @ [Done (total_downloaded st0) year]\<rparr>"
  by (auto simp: finish_run_def split: option.splits outcome.splits)

text \<open>
  Claim C1, as amended. A run that ended normally or on an HTTP failure leaves the
  cumulative file holding what it held before (nothing, when it was opened for
  overwriting) followed by the lines of the per-page files the run saved, page after
  page; the per-page files up to the resume point are untouched. So the cumulative file
  has as many lines as the preserved and the saved per-page files together, provided
  that on a resumed run it went in with as many lines as the preserved per-page files
  hold.
\<close>

theorem cumulative_file_count:
  assumes run: "fetch_and_save_articles fuel src fs year resume = Some (st, Completed)"
    and init: "resume_setup fs resume = (c, t, s, mode)"
    and consistent: "mode = Append \<longrightarrow> cumulative_lines fs = t"
  shows "file_lines (main_file (files st)) =
           (case mode of Append \<Rightarrow> file_lines (main_file fs) | Overwrite \<Rightarrow> []) @
           concat (map (\<lambda>i. file_lines (page_files (files st) i))
                     [s + 1..s + int (saved_pages (log st))]) \<and>
         (\<forall>i. i \<le> s \<longrightarrow> page_files (files st) i = page_files fs i) \<and>
         cumulative_lines (files st) =
           page_lines (files st) 1 s + page_lines (files st) (s + 1) (s + int (saved_pages (log st)))"
proof -
  define st0 where "st0 = start_state fs resume"
  from run obtain st1 where loop: "pager_loop fuel src year st0 = Some (st1, Completed)"
    and st: "st = st1\<lparr>log := log st1 @ [Done (total_downloaded st1) year]\<rparr>"
    unfolding fetch_and_save_articles_def st0_def by (blast dest: finish_run_completed)
  have st0: "log st0 = []" "page_count st0 = s" "page_files (files st0) = page_files fs"
    "file_lines (main_file (files st0)) =
       (case mode of Append \<Rightarrow> file_lines (main_file fs) | Overwrite \<Rightarrow> [])"
    using init by (simp_all add: st0_def start_state_def open_main_def file_lines_def
        split: file_mode.splits)
  from pager_loop_completed[OF loop] st0 have
    main: "file_lines (main_file (files st1)) =
         (case mode of Append \<Rightarrow> file_lines (main_file fs) | Overwrite \<Rightarrow> []) @
         concat (map (\<lambda>i. file_lines (page_files (files st1) i))
                   [s + 1..s + int (saved_pages (log st1))])"
    and keep: "\<forall>q. q \<le> s \<longrightarrow> page_files (files st1) q = page_files fs q"
    by auto
  have sv: "saved_pages (log st) = saved_pages (log st1)"
    by (simp add: st saved_pages_def)
  have fl: "files st = files st1" by (simp add: st)
  have A: "file_lines (main_file (files st)) =
           (case mode of Append \<Rightarrow> file_lines (main_file fs) | Overwrite \<Rightarrow> []) @
           concat (map (\<lambda>i. file_lines (page_files (files st) i))
                     [s + 1..s + int (saved_pages (log st))])"
    using main by (simp add: sv fl)
  have B: "\<forall>i. i \<le> s \<longrightarrow> page_files (files st) i = page_files fs i"
    using keep by (simp add: fl)
  from resume_setup_sum[OF init] have t: "t = page_lines fs 1 s" and ow: "mode = Overwrite \<longrightarrow> s = 0"
    by simp_all
  have pres: "page_lines (files st) 1 s = page_lines fs 1 s"
  proof -
    have "map (\<lambda>n. length (file_lines (page_files (files st) n))) [1..s] =
          map (\<lambda>n. length (file_lines (page_files fs n))) [1..s]"
      using B by (intro map_cong) auto
    then show ?thesis unfolding page_lines_def by (rule arg_cong)
  qed
  have base: "length (case mode of Append \<Rightarrow> file_lines (main_file fs) | Overwrite \<Rightarrow> []) =
      page_lines (files st) 1 s"
  proof (cases mode)
    case Overwrite
    with ow show ?thesis by (simp add: page_lines_def)
  next
    case Append
    with consistent t pres show ?thesis by (simp add: cumulative_lines_def)
  qed
  have C: "cumulative_lines (files st) =
           page_lines (files st) 1 s + page_lines (files st) (s + 1) (s + int (saved_pages (log st)))"
    unfolding cumulative_lines_def A length_append base
    by (simp add: page_lines_def length_concat comp_def)
  from A B C show ?thesis by blast
qed

text \<open>
  Claim C1 as stated fails. The folder holds a finished run of two pages (one and two
  records); resuming at page 2 fetches page 2 again and appends its two records to the
  cumulative file, which then has five lines while the per-page files have one and two.
\<close>

theorem cumulative_file_count_counterexample:
  "run_summary [1, 2]
     (fetch_and_save_articles (Suc 0) two_page_source after_both_pages 2023 (Some 2))
   = Some (Completed, 5, [1, 2], 3)"
  by (simp add: run_defs two_page_source_def page_reply_def after_both_pages_def strip_C1
      enhance_blank)


text \<open>Resuming at page 2 after a run that was cut after page 1.\<close>

theorem cumulative_file_count_witness:
  "\<exists>st. fetch_and_save_articles (Suc (Suc 0)) two_page_source after_page_one 2023 (Some 2)
          = Some (st, Completed) \<and>
        file_lines (main_file (files st)) = [blank_line, blank_line, blank_line] \<and>
        cumulative_lines (files st) = page_lines (files st) 1 1 + page_lines (files st) 2 2"
proof -
  have "\<exists>st. fetch_and_save_articles (Suc (Suc 0)) two_page_source after_page_one 2023 (Some 2)
          = Some (st, Completed) \<and> saved_pages (log st) = 1 \<and>
          file_lines (main_file (files st)) = [blank_line, blank_line, blank_line]"
    by (simp add: run_defs two_page_source_def page_reply_def after_page_one_def strip_C1
        enhance_blank)
  then obtain st where run:
    "fetch_and_save_articles (Suc (Suc 0)) two_page_source after_page_one 2023 (Some 2)
       = Some (st, Completed)"
    and saved: "saved_pages (log st) = 1"
    and main: "file_lines (main_file (files st)) = [blank_line, blank_line, blank_line]"
    by blast
  have init: "resume_setup after_page_one (Some 2) = (JStr ''C1'', 1, 1, Append)"
    by (simp add: resume_setup_def after_page_one_def strip_C1 file_lines_def)
  have before: "Append = Append \<longrightarrow> cumulative_lines after_page_one = 1"
    by (simp add: cumulative_lines_def after_page_one_def file_lines_def)
  from cumulative_file_count[OF run init before] saved
  have "cumulative_lines (files st) = page_lines (files st) 1 1 + page_lines (files st) 2 2"
    by simp
  with run main show ?thesis by blast
qed

text \<open>
  Claim C4. Called with a page number \<open>r\<close> to resume from: when the cursor file of page
  \<open>r - 1\<close> exists, the run starts with the cursor read from it (stripped of surrounding
  white space), with \<open>page_count = r - 1\<close>, with \<open>total_downloaded\<close> the number of lines
  of the existing per-page files 1 to \<open>r - 1\<close>, and with the cumulative file opened for
  appending, its lines kept. When that file is missing the run is the fresh run: same
  start state, cumulative file emptied, nothing raised.
\<close>

theorem resume_start_state:
  assumes "r \<noteq> 0"
  shows "(\<forall>text. cursor_files fs (r - 1) = Some text \<longrightarrow>
            resume_setup fs (Some r) =
              (JStr (py_strip text), page_lines fs 1 (r - 1), r - 1, Append) \<and>
            start_state fs (Some r) =
              \<lparr>files = fs\<lparr>main_file := Some (file_lines (main_file fs))\<rparr>,
               cursor = JStr (py_strip text), total_downloaded = page_lines fs 1 (r - 1),
               page_count = r - 1, log = [], requests = []\<rparr>) \<and>
         (cursor_files fs (r - 1) = None \<longrightarrow>
            resume_setup fs (Some r) = (JStr ''*'', 0, 0, Overwrite) \<and>
            start_state fs (Some r) =
              \<lparr>files = fs\<lparr>main_file := Some []\<rparr>, cursor = JStr ''*'', total_downloaded = 0,
               page_count = 0, log = [], requests = []\<rparr> \<and>
            fetch_and_save_articles fuel src fs year (Some r) =
              fetch_and_save_articles fuel src fs year None)"
  using assms
  by (simp add: fetch_and_save_articles_def start_state_def resume_setup_def open_main_def
      page_lines_def Let_def)

text \<open>Resuming at page 2 with the cursor file of page 1 present, and with it missing.\<close>

theorem resume_start_state_witness:
  "start_state after_page_one (Some 2) =
     \<lparr>files = after_page_one\<lparr>main_file := Some [blank_line]\<rparr>, cursor = JStr ''C1'',
      total_downloaded = 1, page_count = 1, log = [], requests = []\<rparr> \<and>
   start_state empty_folder (Some 2) =
     \<lparr>files = empty_folder\<lparr>main_file := Some []\<rparr>, cursor = JStr ''*'',
      total_downloaded = 0, page_count = 0, log = [], requests = []\<rparr>"
proof -
  have given: "(2::int) \<noteq> 0" by simp
  have found: "cursor_files after_page_one (2 - 1) = Some ''C1''"
    by (simp add: after_page_one_def)
  have missing: "cursor_files empty_folder (2 - 1) = None"
    by (simp add: empty_folder_def)
  from resume_start_state[OF given, of after_page_one] found
  have "start_state after_page_one (Some 2) =
     \<lparr>files = after_page_one\<lparr>main_file := Some (file_lines (main_file after_page_one))\<rparr>,
      cursor = JStr (py_strip ''C1''), total_downloaded = page_lines after_page_one 1 (2 - 1),
      page_count = 2 - 1, log = [], requests = []\<rparr>"
    by blast
  moreover from resume_start_state[OF given, of empty_folder] missing
  have "start_state empty_folder (Some 2) =
     \<lparr>files = empty_folder\<lparr>main_file := Some []\<rparr>, cursor = JStr ''*'',
      total_downloaded = 0, page_count = 0, log = [], requests = []\<rparr>"
    by blast
  ultimately show ?thesis
    by (simp add: strip_C1 page_lines_def after_page_one_def file_lines_def)
qed

text \<open>A 503 answer to the first request of a run resumed at page 2.\<close>

theorem non_200_halts_witness:
  "pager_loop (Suc 0) failing_source 2023 (start_state after_page_one (Some 2)) =
     Some ((start_state after_page_one (Some 2))
             \<lparr>page_count := 2, log := [Fetching 2 2023, HttpError 503],
              requests := [JStr ''C1'']\<rparr>, Completed) \<and>
   fetch_and_save_articles (Suc 0) failing_source after_page_one 2023 (Some 2) =
     Some ((start_state after_page_one (Some 2))
             \<lparr>page_count := 2, log := [Fetching 2 2023, HttpError 503, Done 1 2023],
              requests := [JStr ''C1'']\<rparr>, Completed)"
proof -
  define st where "st = start_state after_page_one (Some 2)"
  have st: "cursor st = JStr ''C1''" "requests st = []" "log st = []" "page_count st = 1"
    "total_downloaded st = 1"
    by (simp_all add: st_def start_state_def resume_setup_def after_page_one_def strip_C1
        file_lines_def)
  have reply: "failing_source (length (requests st)) 2023 (cursor st) = Response 503 None"
    by (simp add: failing_source_def)
  have code: "(503::int) \<noteq> 200" by simp
  from non_200_halts[where src = failing_source and year = 2023 and status_code = 503
      and st = st and body = None and n = 0, OF reply code]
  show ?thesis
    unfolding fetch_and_save_articles_def st_def[symmetric]
    by (simp add: st finish_run_def del: pager_loop.simps)
qed


section \<open>The flattener\<close>

lemma py_get_Inr:
  "py_get obj k d = Inr v \<longleftrightarrow>
     (\<exists>kvs. obj = JDict kvs \<and> v = (case map_of kvs k of Some v \<Rightarrow> v | None \<Rightarrow> d))"
  by (cases obj) auto

lemma py_get_attr: "py_get obj k JNull = Inr v \<Longrightarrow> v = attr k obj"
  by (cases obj) (auto simp: attr_def lookup_def split: option.splits)

lemma py_get_is_dict: "py_get obj k d = Inr v \<Longrightarrow> \<exists>kvs. obj = JDict kvs"
  by (cases obj) auto

lemma py_get_dict: "py_get (JDict kvs) k JNull = Inr (attr k (JDict kvs))"
  by (simp add: attr_def lookup_def)

lemma mapE_Inr: "mapE f xs = Inr ys \<Longrightarrow> list_all2 (\<lambda>x y. f x = Inr y) xs ys"
  by (induction xs arbitrary: ys) (auto simp: bindE_Inr_iff)

lemma mapE_get:
  assumes "mapE (\<lambda>x. py_get x a JNull) cs = Inr xs"
  shows "xs = map (attr a) cs" and "\<forall>c \<in> set cs. \<exists>kvs. c = JDict kvs"
proof -
  from mapE_Inr[OF assms] have l: "list_all2 (\<lambda>x y. py_get x a JNull = Inr y) cs xs" .
  then have "list_all2 (\<lambda>x y. y = attr a x) cs xs"
    by (rule list_all2_mono) (simp add: py_get_attr)
  then show "xs = map (attr a) cs"
    by (induction rule: list_all2_induct) simp_all
  from l show "\<forall>c \<in> set cs. \<exists>kvs. c = JDict kvs"
    by (induction rule: list_all2_induct) (auto dest: py_get_is_dict)
qed

text \<open>Iterating a collection whose items all turn out to be dictionaries.\<close>

lemma iter_entries:
  assumes "bindE (py_get obj k (JList [])) py_iter = Inr cs"
    and "\<forall>c \<in> set cs. \<exists>kvs. c = JDict kvs"
  shows "cs = entries obj k"
proof -
  from assms(1) obtain v where v: "py_get obj k (JList []) = Inr v" and it: "py_iter v = Inr cs"
    by (auto simp: bindE_Inr_iff)
  from v obtain kvs where obj: "obj = JDict kvs"
    and v': "v = (case map_of kvs k of Some v \<Rightarrow> v | None \<Rightarrow> JList [])"
    by (auto simp: py_get_Inr)
  show ?thesis
  proof (cases v)
    case (JList xs)
    with it v' obj show ?thesis
      by (auto simp: entries_def lookup_def split: option.splits)
  next
    case (JDict d)
    with it assms(2) have "d = []" by (cases d) auto
    with JDict it v' obj show ?thesis
      by (auto simp: entries_def lookup_def split: option.splits)
  next
    case (JStr s)
    with it assms(2) have "s = []" by (cases s) auto
    with JStr it v' obj show ?thesis
      by (auto simp: entries_def lookup_def split: option.splits)
  qed (use it in simp_all)
qed

lemma enhance_work_data_Inr:
  assumes "enhance_work_data work = Inr flat"
  obtains authors flds doms kws sf sd sk ratio journal topic where
    "authors_part work = Inr authors"
    "topic_names ''field'' work = Inr flds"
    "topic_names ''domain'' work = Inr doms"
    "keyword_names work = Inr kws"
    "sorted_set flds = Inr sf" "sorted_set doms = Inr sd" "sorted_set kws = Inr sk"
    "citation_ratio (attr ''cited_by_count'' work) (attr ''referenced_works_count'' work)
       = Inr ratio"
    "journal_info work = Inr journal"
    "research_topic (attr ''display_name'' work) sf sd (take 5 sk) = Inr topic"
    "flat = flat_record (attr ''id'' work) (attr ''display_name'' work)
       (attr ''publication_year'' work) (attr ''cited_by_count'' work)
       (attr ''referenced_works_count'' work) (attr ''type'' work) (fst authors) (snd authors)
       sf sd sk ratio journal topic"
proof -
  from assms obtain wid title year cited refs ty authors flds doms kws sf sd sk
    ratio journal topic where
    g: "py_get work ''id'' JNull = Inr wid" "py_get work ''display_name'' JNull = Inr title"
      "py_get work ''publication_year'' JNull = Inr year"
      "py_get work ''cited_by_count'' JNull = Inr cited"
      "py_get work ''referenced_works_count'' JNull = Inr refs"
      "py_get work ''type'' JNull = Inr ty"
    and p: "authors_part work = Inr authors"
      "topic_names ''field'' work = Inr flds"
      "topic_names ''domain'' work = Inr doms"
      "keyword_names work = Inr kws"
      "sorted_set flds = Inr sf" "sorted_set doms = Inr sd" "sorted_set kws = Inr sk"
      "citation_ratio cited refs = Inr ratio"
      "journal_info work = Inr journal"
      "research_topic title sf sd (take 5 sk) = Inr topic"
    and f: "flat = flat_record wid title year cited refs ty (fst authors) (snd authors)
       sf sd sk ratio journal topic"
    unfolding enhance_work_data_def bindE_Inr_iff by blast
  from g have "wid = attr ''id'' work" "title = attr ''display_name'' work"
    "year = attr ''publication_year'' work" "cited = attr ''cited_by_count'' work"
    "refs = attr ''referenced_works_count'' work" "ty = attr ''type'' work"
    by (simp_all add: py_get_attr)
  with p f that show ?thesis by blast
qed

lemma lookup_flat_record:
  "lookup (flat_record wid title year cited refs ty authors insts flds doms kws
     ratio journal topic) k =
   (if k = ''id'' then Some wid else if k = ''title'' then Some title
    else if k = ''publication_year'' then Some year
    else if k = ''cited_by_count'' then Some cited
    else if k = ''referenced_works_count'' then Some refs
    else if k = ''type'' then Some ty
    else if k = ''authors'' then Some (JList authors)
    else if k = ''authors_count'' then Some (JInt (int (length authors)))
    else if k = ''institutions_count'' then Some (JInt (int (length insts)))
    else if k = ''fields'' then Some (JList flds)
    else if k = ''domains'' then Some (JList doms)
    else if k = ''keywords'' then Some (JList kws)
    else if k = ''is_multidisciplinary'' then Some (JBool (1 < length flds))
    else if k = ''top_keywords'' then Some (JList (take 5 kws))
    else if k = ''citation_per_reference_ratio'' then Some (JFloat ratio)
    else if k = ''journal'' then journal
    else if k = ''research_topic'' then Some (JStr topic) else None)"
  by (cases journal) (simp_all add: lookup_def flat_record_def)


section \<open>Sets and sorting\<close>

lemma py_eq_eq_key: "py_eq a b \<longleftrightarrow> eq_key a = eq_key b"
  by (auto simp: py_eq_def eq_key_def split: option.splits)

lemma list_ex_py_eq: "list_ex (py_eq x) s \<longleftrightarrow> eq_key x \<in> eq_key ` set s"
  by (auto simp: list_ex_iff py_eq_eq_key)

lemma set_add_Inr:
  "set_add s x = Inr s' \<Longrightarrow> distinct (map eq_key s) \<Longrightarrow>
     distinct (map eq_key s') \<and> eq_key ` set s' = insert (eq_key x) (eq_key ` set s)"
  by (auto simp: set_add_def list_ex_py_eq split: if_splits)

lemma foldE_set_add:
  "foldE set_add xs acc = Inr ys \<Longrightarrow> distinct (map eq_key acc) \<Longrightarrow>
     distinct (map eq_key ys) \<and> eq_key ` set ys = eq_key ` (set acc \<union> set xs)"
proof (induction xs arbitrary: acc)
  case Nil
  then show ?case by simp
next
  case (Cons x xs)
  from Cons.prems(1) obtain acc' where a: "set_add acc x = Inr acc'"
    and f: "foldE set_add xs acc' = Inr ys"
    by (auto simp: bindE_Inr_iff)
  from set_add_Inr[OF a Cons.prems(2)] have d: "distinct (map eq_key acc')"
    and e: "eq_key ` set acc' = insert (eq_key x) (eq_key ` set acc)" by simp_all
  from Cons.IH[OF f d] e show ?case by (auto simp: image_Un)
qed

lemma eq_key_str: "eq_key x = eq_key (JStr s) \<longleftrightarrow> x = JStr s"
  by (auto simp: eq_key_def split: option.splits)

lemma py_set_strings:
  assumes "py_set xs = Inr (map JStr ss)"
  shows "distinct ss" and "JStr ` set ss = set xs"
proof -
  from foldE_set_add[OF assms[unfolded py_set_def]]
  have d: "distinct (map eq_key (map JStr ss))"
    and e: "eq_key ` set (map JStr ss) = eq_key ` set xs" by simp_all
  from d show "distinct ss" by (simp add: distinct_map)
  show "JStr ` set ss = set xs"
  proof (intro set_eqI iffI)
    fix y assume "y \<in> JStr ` set ss"
    then obtain t where t: "t \<in> set ss" "y = JStr t" by blast
    then have "eq_key (JStr t) \<in> eq_key ` set xs" using e by auto
    then obtain x where "x \<in> set xs" "eq_key x = eq_key (JStr t)" by force
    with t show "y \<in> set xs" by (simp add: eq_key_str)
  next
    fix x assume "x \<in> set xs"
    then have "eq_key x \<in> eq_key ` set (map JStr ss)" using e by blast
    then obtain t where "t \<in> set ss" "eq_key x = eq_key (JStr t)" by auto
    then show "x \<in> JStr ` set ss" by (auto simp: eq_key_str)
  qed
qed

lemma those_Some: "those xs = Some ys \<longleftrightarrow> xs = map Some ys"
  by (induction xs arbitrary: ys) (auto split: option.splits)

lemma those_str_of: "those (map str_of ys) = Some ss \<longleftrightarrow> ys = map JStr ss"
proof (induction ys arbitrary: ss)
  case Nil
  then show ?case by auto
next
  case (Cons y ys)
  show ?case
    by (cases y; cases ss) (auto simp: Cons.IH split: option.splits)
qed

lemma set_key_insert: "set (key_insert x ys) = insert x (set ys)"
  by (induction ys) auto

lemma length_key_insert: "length (key_insert x ys) = Suc (length ys)"
  by (induction ys) auto

lemma set_key_sort: "set (foldr key_insert xs []) = set xs"
  by (induction xs) (simp_all add: set_key_insert)

lemma length_key_sort: "length (foldr key_insert xs []) = length xs"
  by (induction xs) (simp_all add: length_key_insert)

lemma num_not_str: "num_key z = Some k \<Longrightarrow> str_of z = None"
  by (cases z) auto

lemma py_sorted_Inr:
  assumes "py_sorted ys = Inr zs"
  shows "(\<exists>ss. ys = map JStr ss \<and> zs = map JStr (sort ss)) \<or>
         (zs \<noteq> [] \<and> (\<forall>z \<in> set zs. str_of z = None))"
proof (cases "those (map str_of ys)")
  case (Some ss)
  with assms show ?thesis by (auto simp: py_sorted_def those_str_of)
next
  case None
  then have ne: "ys \<noteq> []" by auto
  show ?thesis
  proof (cases "those (map num_key ys)")
    case (Some ks)
    then have ks: "map num_key ys = map Some ks" by (simp add: those_Some)
    then have len: "length ks = length ys" by (metis length_map)
    from assms None Some have zs: "zs = map snd (foldr key_insert (zip ks ys) [])"
      by (simp add: py_sorted_def)
    have "set zs = set ys"
      unfolding zs set_map set_key_sort using len
      by (metis map_snd_zip set_map)
    moreover have "length zs = length ys"
      unfolding zs using len by (simp add: length_key_sort)
    moreover have "\<forall>y \<in> set ys. str_of y = None"
    proof
      fix y assume "y \<in> set ys"
      then have "num_key y \<in> set (map Some ks)" using ks by (metis imageI set_map)
      then obtain k where "num_key y = Some k" by auto
      then show "str_of y = None" by (rule num_not_str)
    qed
    ultimately show ?thesis using ne by auto
  next
    case n2: None
    with assms None have "zs = ys" "length ys \<le> 1"
      by (auto simp: py_sorted_def split: if_splits)
    with ne obtain y where y: "ys = [y]" by (cases ys) auto
    with None have "str_of y = None" by (auto split: option.splits)
    with y \<open>zs = ys\<close> show ?thesis by simp
  qed
qed

lemma map_JStr_eq: "map JStr a = map JStr b \<longleftrightarrow> a = b"
  by (simp add: inj_map_eq_map inj_def)

lemma py_join_Inr:
  "py_join sep xs = Inr s \<longleftrightarrow> (\<exists>ss. xs = map JStr ss \<and> s = join_str sep ss)"
proof (cases "those (map str_of xs)")
  case None
  then have "\<not> (\<exists>ss. xs = map JStr ss)" using those_str_of[of xs] by auto
  with None show ?thesis by (auto simp: py_join_def)
next
  case (Some ss)
  then have "xs = map JStr ss" by (simp add: those_str_of)
  with Some show ?thesis by (auto simp: py_join_def map_JStr_eq)
qed

lemma joined_or_empty_Inr:
  "joined_or_empty xs = Inr s \<Longrightarrow> \<exists>ss. xs = map JStr ss \<and> s = join_str '', '' ss"
  by (auto simp: joined_or_empty_def py_join_Inr split: if_splits)

text \<open>A sorted set that was joined afterwards held strings only.\<close>

lemma sorted_set_joined:
  assumes "sorted_set xs = Inr zs" and "joined_or_empty (take n zs) = Inr s" and "0 < n"
  shows "\<exists>ss. zs = map JStr ss \<and> sorted ss \<and> distinct ss \<and> JStr ` set ss = set xs \<and>
           s = join_str '', '' (take n ss)"
proof -
  from assms(1) obtain ys where ys: "py_set xs = Inr ys" and zs: "py_sorted ys = Inr zs"
    by (auto simp: sorted_set_def bindE_Inr_iff)
  from joined_or_empty_Inr[OF assms(2)] obtain ts where
    ts: "take n zs = map JStr ts" and s: "s = join_str '', '' ts" by blast
  have "\<not> (zs \<noteq> [] \<and> (\<forall>z \<in> set zs. str_of z = None))"
  proof
    assume a: "zs \<noteq> [] \<and> (\<forall>z \<in> set zs. str_of z = None)"
    then obtain z rest where z: "zs = z # rest" by (cases zs) auto
    with assms(3) ts obtain t where "z = JStr t" by (cases n; cases ts) auto
    with a z show False by simp
  qed
  with py_sorted_Inr[OF zs] obtain ss where ss: "ys = map JStr ss" "zs = map JStr (sort ss)"
    by blast
  from py_set_strings[OF ys[unfolded ss(1)]] have "distinct ss" "JStr ` set ss = set xs" .
  moreover from ts ss(2) have "ts = take n (sort ss)"
    by (simp add: take_map map_JStr_eq)
  ultimately show ?thesis using ss(2) s
    by (intro exI[of _ "sort ss"]) simp
qed


section \<open>Where the lists come from\<close>

lemma py_subscript_attr: "py_subscript obj k = Inr v \<Longrightarrow> v = attr k obj"
  by (cases obj) (auto simp: attr_def lookup_def split: option.splits)

lemma keyword_names_Inr:
  assumes "keyword_names work = Inr kws"
  shows "kws = spec_keywords work"
proof -
  from assms obtain cs xs where
    cs: "bindE (py_get work ''concepts'' (JList [])) py_iter = Inr cs"
    and xs: "mapE (\<lambda>k. py_get k ''display_name'' JNull) cs = Inr xs"
    and r: "(if xs \<noteq> [] then Inr xs
             else bindE (bindE (py_get work ''keywords'' (JList [])) py_iter)
                        (mapE (\<lambda>k. py_get k ''keyword'' JNull))) = Inr kws"
    unfolding keyword_names_def bindE_Inr_iff by blast
  from mapE_get[OF xs] have x: "xs = map (attr ''display_name'') cs"
    and d: "\<forall>c \<in> set cs. \<exists>kvs. c = JDict kvs" by simp_all
  from iter_entries[OF cs d] have c: "cs = entries work ''concepts''" .
  show ?thesis
  proof (cases "xs = []")
    case False
    with r x c show ?thesis by (auto simp: spec_keywords_def)
  next
    case True
    with r obtain ks where ks: "bindE (py_get work ''keywords'' (JList [])) py_iter = Inr ks"
      and k: "mapE (\<lambda>k. py_get k ''keyword'' JNull) ks = Inr kws"
      by (auto simp: bindE_Inr_iff)
    from mapE_get[OF k] iter_entries[OF ks]
    have "kws = map (attr ''keyword'') (entries work ''keywords'')" by simp
    with True x c show ?thesis by (simp add: spec_keywords_def)
  qed
qed

lemma topic_name_Inr:
  assumes "topic_name key topic = Inr ns"
  shows "\<exists>kvs. topic = JDict kvs"
    and "ns = (if truthy (attr key topic) then [attr ''display_name'' (attr key topic)] else [])"
proof -
  from assms obtain f where f: "py_get topic key JNull = Inr f"
    and r: "(if truthy f
             then bindE (py_subscript topic key) (\<lambda>g.
                  bindE (py_get g ''display_name'' JNull) (\<lambda>n. Inr [n]))
             else Inr []) = Inr ns"
    unfolding topic_name_def bindE_Inr_iff by blast
  from f show "\<exists>kvs. topic = JDict kvs" by (rule py_get_is_dict)
  from f have f': "f = attr key topic" by (rule py_get_attr)
  show "ns = (if truthy (attr key topic) then [attr ''display_name'' (attr key topic)] else [])"
  proof (cases "truthy f")
    case False
    with r f' show ?thesis by simp
  next
    case True
    with r obtain g n where "py_subscript topic key = Inr g"
      "py_get g ''display_name'' JNull = Inr n" "ns = [n]"
      by (auto simp: bindE_Inr_iff)
    with True f' show ?thesis by (auto dest: py_subscript_attr py_get_attr)
  qed
qed

lemma topic_names_Inr:
  assumes "topic_names key work = Inr names"
  shows "names = spec_topic_names key work"
proof -
  from assms obtain ts nss where
    ts: "bindE (py_get work ''topics'' (JList [])) py_iter = Inr ts"
    and nss: "mapE (topic_name key) ts = Inr nss" and n: "names = concat nss"
    unfolding topic_names_def bindE_Inr_iff by blast
  from mapE_Inr[OF nss] have l: "list_all2 (\<lambda>t ns. topic_name key t = Inr ns) ts nss" .
  then have d: "\<forall>t \<in> set ts. \<exists>kvs. t = JDict kvs"
    by (induction rule: list_all2_induct) (auto dest: topic_name_Inr(1))
  from l have "concat nss =
      map (\<lambda>topic. attr ''display_name'' (attr key topic))
          (filter (\<lambda>topic. truthy (attr key topic)) ts)"
    by (induction rule: list_all2_induct) (auto dest: topic_name_Inr(2))
  with iter_entries[OF ts d] n show ?thesis by (simp add: spec_topic_names_def)
qed

lemma py_join_strs: "py_join sep (map JStr ss) = Inr (join_str sep ss)"
  by (simp add: py_join_Inr) blast

lemma joined_or_empty_strs: "joined_or_empty (map JStr ss) = Inr (join_str '', '' ss)"
  by (cases ss) (simp_all add: joined_or_empty_def py_join_strs[of _ "_ # _", simplified])

lemma research_topic_Inr:
  assumes "research_topic title (map JStr fs) (map JStr ds) (map JStr ks) = Inr topic"
  shows "topic = join_str '' | ''
           (filter (\<lambda>s. s \<noteq> [])
              [title_text title, join_str '', '' fs, join_str '', '' ds, join_str '', '' ks])"
proof -
  define parts where
    "parts = filter (\<lambda>s. s \<noteq> []) [join_str '', '' fs, join_str '', '' ds, join_str '', '' ks]"
  have flt: "filter truthy [JStr (join_str '', '' fs), JStr (join_str '', '' ds),
      JStr (join_str '', '' ks)] = map JStr parts"
    by (simp add: parts_def)
  from assms have j: "py_join '' | '' (filter truthy [title, JStr (join_str '', '' fs),
      JStr (join_str '', '' ds), JStr (join_str '', '' ks)]) = Inr topic"
    by (simp add: research_topic_def joined_or_empty_strs)
  show ?thesis
  proof (cases "truthy title")
    case False
    then have "title_text title = []" by (cases title) (simp_all add: title_text_def)
    moreover from False j flt have "py_join '' | '' (map JStr parts) = Inr topic" by simp
    ultimately show ?thesis by (simp add: py_join_strs parts_def)
  next
    case True
    with j flt have "py_join '' | '' (title # map JStr parts) = Inr topic" by simp
    then have "\<exists>ss. title # map JStr parts = map JStr ss \<and> topic = join_str '' | '' ss"
      by (subst (asm) py_join_Inr)
    then obtain ss where ss: "title # map JStr parts = map JStr ss"
      and t: "topic = join_str '' | '' ss" by (elim exE conjE)
    from ss obtain t' where t': "title = JStr t'" "ss = t' # parts"
      by (cases ss) (auto simp: map_JStr_eq)
    with True have "title_text title = t'" "t' \<noteq> []" by (simp_all add: title_text_def)
    with t t' show ?thesis by (simp add: parts_def)
  qed
qed

text \<open>What a returned record holds, gathered once for the theorems below.\<close>

lemma enhance_work_data_lists:
  assumes "enhance_work_data work = Inr flat"
  obtains fs ds ks authors ratio journal where
    "sorted fs" "distinct fs" "JStr ` set fs = set (spec_topic_names ''field'' work)"
    "sorted ds" "distinct ds" "JStr ` set ds = set (spec_topic_names ''domain'' work)"
    "sorted ks" "distinct ks" "JStr ` set ks = set (spec_keywords work)"
    "authors_part work = Inr authors"
    "citation_ratio (attr ''cited_by_count'' work) (attr ''referenced_works_count'' work)
       = Inr ratio"
    "journal_info work = Inr journal"
    "flat = flat_record (attr ''id'' work) (attr ''display_name'' work)
       (attr ''publication_year'' work) (attr ''cited_by_count'' work)
       (attr ''referenced_works_count'' work) (attr ''type'' work) (fst authors) (snd authors)
       (map JStr fs) (map JStr ds) (map JStr ks) ratio journal
       (join_str '' | ''
          (filter (\<lambda>s. s \<noteq> [])
             [title_text (attr ''display_name'' work), join_str '', '' fs, join_str '', '' ds,
              join_str '', '' (take 5 ks)]))"
proof -
  from assms obtain authors flds doms kws sf sd sk ratio journal topic where
    a: "authors_part work = Inr authors"
    and n: "topic_names ''field'' work = Inr flds" "topic_names ''domain'' work = Inr doms"
      "keyword_names work = Inr kws"
    and s: "sorted_set flds = Inr sf" "sorted_set doms = Inr sd" "sorted_set kws = Inr sk"
    and r: "citation_ratio (attr ''cited_by_count'' work) (attr ''referenced_works_count'' work)
       = Inr ratio"
    and j: "journal_info work = Inr journal"
    and t: "research_topic (attr ''display_name'' work) sf sd (take 5 sk) = Inr topic"
    and f: "flat = flat_record (attr ''id'' work) (attr ''display_name'' work)
       (attr ''publication_year'' work) (attr ''cited_by_count'' work)
       (attr ''referenced_works_count'' work) (attr ''type'' work) (fst authors) (snd authors)
       sf sd sk ratio journal topic"
    by (rule enhance_work_data_Inr)
  from t obtain jf jd jk where
    jf: "joined_or_empty sf = Inr jf" and jd: "joined_or_empty sd = Inr jd"
    and jk: "joined_or_empty (take 5 sk) = Inr jk"
    unfolding research_topic_def bindE_Inr_iff by blast
  from sorted_set_joined[OF s(1), of "Suc (length sf)" jf] jf obtain fs where
    fs: "sf = map JStr fs" "sorted fs" "distinct fs" "JStr ` set fs = set flds" by auto
  from sorted_set_joined[OF s(2), of "Suc (length sd)" jd] jd obtain ds where
    ds: "sd = map JStr ds" "sorted ds" "distinct ds" "JStr ` set ds = set doms" by auto
  from sorted_set_joined[OF s(3) jk] obtain ks where
    ks: "sk = map JStr ks" "sorted ks" "distinct ks" "JStr ` set ks = set kws" by auto
  from t have topic: "topic = join_str '' | ''
          (filter (\<lambda>s. s \<noteq> [])
             [title_text (attr ''display_name'' work), join_str '', '' fs, join_str '', '' ds,
              join_str '', '' (take 5 ks)])"
    unfolding fs(1) ds(1) ks(1) take_map by (rule research_topic_Inr)
  have src: "JStr ` set fs = set (spec_topic_names ''field'' work)"
    "JStr ` set ds = set (spec_topic_names ''domain'' work)"
    "JStr ` set ks = set (spec_keywords work)"
    unfolding fs(4) ds(4) ks(4)
    using topic_names_Inr[OF n(1)] topic_names_Inr[OF n(2)] keyword_names_Inr[OF n(3)]
    by simp_all
  show ?thesis
    by (rule that[of fs ds ks authors ratio journal])
       (use fs ds ks src a r j f topic in simp_all)
qed


named_theorems flat_defs

lemmas [flat_defs] = enhance_work_data_def authors_part_def authors_step_def author_info_def
  institution_info_def add_institution_def topic_names_def topic_name_def keyword_names_def
  sorted_set_def py_set_def set_add_def py_eq_def py_sorted_def journal_info_def
  research_topic_def joined_or_empty_def py_join_def


text \<open>
  Claim C2. The flattener does raise on a partial record: a topic whose field object has
  no display name puts \<^verbatim>\<open>None\<close> into the list of fields, and joining that list raises
  \<^verbatim>\<open>TypeError\<close>.
\<close>

theorem nameless_field_raises: "enhance_work_data nameless_field_work = Inl TypeError"
  by (simp add: flat_defs nameless_field_work_def citation_ratio_absent)

lemma returned_lists:
  assumes "enhance_work_data work = Inr flat"
  shows "\<exists>fs ds ks.
           lookup flat ''fields'' = Some (JList (map JStr fs)) \<and> sorted fs \<and> distinct fs \<and>
           JStr ` set fs = set (spec_topic_names ''field'' work) \<and>
           lookup flat ''domains'' = Some (JList (map JStr ds)) \<and> sorted ds \<and> distinct ds \<and>
           JStr ` set ds = set (spec_topic_names ''domain'' work) \<and>
           lookup flat ''keywords'' = Some (JList (map JStr ks)) \<and> sorted ks \<and> distinct ks \<and>
           JStr ` set ks = set (spec_keywords work)"
proof -
  from assms obtain fs ds ks authors ratio journal topic where
    "sorted fs" "distinct fs" "JStr ` set fs = set (spec_topic_names ''field'' work)"
    "sorted ds" "distinct ds" "JStr ` set ds = set (spec_topic_names ''domain'' work)"
    "sorted ks" "distinct ks" "JStr ` set ks = set (spec_keywords work)"
    "flat = flat_record (attr ''id'' work) (attr ''display_name'' work)
       (attr ''publication_year'' work) (attr ''cited_by_count'' work)
       (attr ''referenced_works_count'' work) (attr ''type'' work) (fst authors) (snd authors)
       (map JStr fs) (map JStr ds) (map JStr ks) ratio journal topic"
    by (rule enhance_work_data_lists)
  then show ?thesis
    by (intro exI[of _ fs] exI[of _ ds] exI[of _ ks]) (simp add: lookup_flat_record)
qed

lemma take_min_length: "take (min n (length xs)) xs = take n xs"
  by (simp add: min_def)

lemma returned_top_keywords:
  assumes "enhance_work_data work = Inr flat"
  shows "\<exists>ks. lookup flat ''keywords'' = Some (JList (map JStr ks)) \<and>
              sorted ks \<and> distinct ks \<and> JStr ` set ks = set (spec_keywords work) \<and>
              lookup flat ''top_keywords'' = Some (JList (map JStr (take (min 5 (length ks)) ks)))"
proof -
  from assms obtain fs ds ks authors ratio journal topic where
    "sorted ks" "distinct ks" "JStr ` set ks = set (spec_keywords work)"
    "flat = flat_record (attr ''id'' work) (attr ''display_name'' work)
       (attr ''publication_year'' work) (attr ''cited_by_count'' work)
       (attr ''referenced_works_count'' work) (attr ''type'' work) (fst authors) (snd authors)
       (map JStr fs) (map JStr ds) (map JStr ks) ratio journal topic"
    by (rule enhance_work_data_lists)
  then show ?thesis
    by (intro exI[of _ ks]) (simp add: lookup_flat_record take_map take_min_length)
qed




section \<open>The journal\<close>








section \<open>The ratio\<close>

lemma round_half_even_nonneg: "0 \<le> x \<Longrightarrow> 0 \<le> round_half_even x"
  by (simp add: round_half_even_def Let_def)

lemma pow2_pos: "0 < pow2 k"
  by (simp add: pow2_def)

lemma fl64_nonneg: "0 \<le> x \<Longrightarrow> 0 \<le> fl64 x"
  by (simp add: fl64_def Let_def round_half_even_nonneg pow2_pos less_imp_le)



lemma py_or_refs: "is_count refs \<Longrightarrow> py_or refs (JInt 1) = JInt (max (count_of refs) 1)"
proof (cases refs)
  case (JInt n)
  assume "is_count refs"
  with JInt have n: "0 \<le> n" by simp
  show ?thesis
  proof (cases "n = 0")
    case True
    with JInt show ?thesis by (simp add: py_or_def)
  next
    case False
    with n have "max n 1 = n" by simp
    with False JInt show ?thesis by (simp add: py_or_def)
  qed
qed (simp_all add: py_or_def)

lemma py_or_cited: "is_count cited \<Longrightarrow> py_or cited (JInt 0) = JInt (count_of cited)"
  by (cases cited) (simp_all add: py_or_def)

lemma citation_ratio_counts:
  "is_count cited \<Longrightarrow> is_count refs \<Longrightarrow>
     citation_ratio cited refs =
       bindE (int_truediv (count_of cited) (max (count_of refs) 1)) (\<lambda>q. Inr (py_round3 q))"
  by (simp add: citation_ratio_def py_or_refs py_or_cited py_truediv_def)


lemma fl64_3_2: "fl64 (3 / 2) = 3 / 2"
  by code_simp


lemma int_truediv_3_2: "int_truediv 3 2 = Inr (Finite (3 / 2))"
  by (simp add: int_truediv_def fl64_3_2)

lemma py_round3_3_2: "py_round3 (Finite (3 / 2)) = Finite (3 / 2)"
  by (simp add: round_half_even_def fl64_3_2)







section \<open>Authors and institutions\<close>

lemma institution_info_Inr:
  assumes "institution_info inst = Inr e"
  shows "\<exists>kvs. inst = JDict kvs" and "e = institution_entry inst"
proof -
  from assms obtain i n c t where g: "py_get inst ''id'' JNull = Inr i"
    "py_get inst ''display_name'' JNull = Inr n" "py_get inst ''country'' JNull = Inr c"
    "py_get inst ''type'' JNull = Inr t"
    and e: "e = JDict [(''institution_id'', i), (''institution_name'', n),
                 (''country'', c), (''type'', t)]"
    unfolding institution_info_def bindE_Inr_iff by blast
  from g(1) show "\<exists>kvs. inst = JDict kvs" by (rule py_get_is_dict)
  from g e show "e = institution_entry inst"
    by (simp add: institution_entry_def py_get_attr)
qed

lemma author_info_Inr:
  assumes "author_info auth = Inr info"
  shows "\<exists>kvs. auth = JDict kvs"
    and "bindE (py_get auth ''institutions'' (JList [])) py_iter
           = Inr (entries auth ''institutions'')"
    and "lookup info ''institutions'' =
           Some (JList (map institution_entry (entries auth ''institutions'')))"
proof -
  from assms obtain aid name orcid pos cs insts where
    pos: "py_get auth ''author_position'' JNull = Inr pos"
    and cs: "bindE (py_get auth ''institutions'' (JList [])) py_iter = Inr cs"
    and insts: "mapE institution_info cs = Inr insts"
    and info: "info = JDict [(''author_id'', aid), (''author_name'', name), (''orcid'', orcid),
                 (''position'', pos), (''institutions'', JList insts)]"
    unfolding author_info_def bindE_Inr_iff by blast
  from pos show "\<exists>kvs. auth = JDict kvs" by (rule py_get_is_dict)
  from mapE_Inr[OF insts] have l: "list_all2 (\<lambda>c e. institution_info c = Inr e) cs insts" .
  then have d: "\<forall>c \<in> set cs. \<exists>kvs. c = JDict kvs"
    by (induction rule: list_all2_induct) (auto dest: institution_info_Inr(1))
  from l have m: "insts = map institution_entry cs"
    by (induction rule: list_all2_induct) (auto dest: institution_info_Inr(2))
  from iter_entries[OF cs d] have c: "cs = entries auth ''institutions''" .
  with cs show "bindE (py_get auth ''institutions'' (JList [])) py_iter
           = Inr (entries auth ''institutions'')" by simp
  from info m c show "lookup info ''institutions'' =
           Some (JList (map institution_entry (entries auth ''institutions'')))"
    by (simp add: lookup_def)
qed

lemma foldE_add_institution:
  "foldE add_institution insts s = Inr s' \<Longrightarrow> distinct (map eq_key s) \<Longrightarrow>
     distinct (map eq_key s') \<and>
     eq_key ` set s' =
       eq_key ` set s \<union>
       eq_key ` {n. \<exists>inst \<in> set insts. n = attr ''display_name'' inst \<and> truthy n}"
proof (induction insts arbitrary: s)
  case Nil
  then show ?case by simp
next
  case (Cons inst insts)
  from Cons.prems(1) obtain s1 where a: "add_institution s inst = Inr s1"
    and f: "foldE add_institution insts s1 = Inr s'"
    by (auto simp: bindE_Inr_iff)
  define n where "n = attr ''display_name'' inst"
  from a have r: "(if truthy n then set_add s n else Inr s) = Inr s1"
    unfolding add_institution_def bindE_Inr_iff n_def by (auto dest: py_get_attr)
  have s1: "distinct (map eq_key s1) \<and>
      eq_key ` set s1 = eq_key ` set s \<union> eq_key ` {m. m = n \<and> truthy m}"
  proof (cases "truthy n")
    case True
    with r have "set_add s n = Inr s1" by simp
    from set_add_Inr[OF this Cons.prems(2)] True show ?thesis by auto
  next
    case False
    with r Cons.prems(2) show ?thesis by auto
  qed
  from Cons.IH[OF f] s1 have "distinct (map eq_key s')"
    and e: "eq_key ` set s' = eq_key ` set s1 \<union>
       eq_key ` {n. \<exists>inst \<in> set insts. n = attr ''display_name'' inst \<and> truthy n}"
    by simp_all
  moreover have "{m. \<exists>i \<in> set (inst # insts). m = attr ''display_name'' i \<and> truthy m} =
      {m. m = n \<and> truthy m} \<union>
      {n. \<exists>inst \<in> set insts. n = attr ''display_name'' inst \<and> truthy n}"
    by (auto simp: n_def)
  ultimately show ?case using s1 by (simp add: image_Un Un_assoc)
qed

text \<open>The truthy institution names of a list of authorships.\<close>

lemma foldE_authors_step:
  "foldE authors_step auths acc = Inr acc' \<Longrightarrow> distinct (map eq_key (snd acc)) \<Longrightarrow>
     (\<forall>auth \<in> set auths. \<exists>kvs. auth = JDict kvs) \<and>
     (\<exists>new. fst acc' = fst acc @ new \<and>
        list_all2 (\<lambda>auth out. lookup out ''institutions'' =
                     Some (JList (map institution_entry (entries auth ''institutions''))))
          auths new) \<and>
     distinct (map eq_key (snd acc')) \<and>
     eq_key ` set (snd acc') =
       eq_key ` set (snd acc) \<union>
       eq_key ` {n. \<exists>auth \<in> set auths. \<exists>inst \<in> set (entries auth ''institutions'').
                     n = attr ''display_name'' inst \<and> truthy n}"
proof (induction auths arbitrary: acc)
  case Nil
  then show ?case by simp
next
  case (Cons auth auths)
  from Cons.prems(1) obtain acc1 where a: "authors_step acc auth = Inr acc1"
    and f: "foldE authors_step auths acc1 = Inr acc'"
    by (auto simp: bindE_Inr_iff)
  from a obtain info insts s1 where info: "author_info auth = Inr info"
    and insts: "bindE (py_get auth ''institutions'' (JList [])) py_iter = Inr insts"
    and s1: "foldE add_institution insts (snd acc) = Inr s1"
    and acc1: "acc1 = (fst acc @ [info], s1)"
    unfolding authors_step_def bindE_Inr_iff by blast
  note ai = author_info_Inr[OF info]
  from insts ai(2) have i: "insts = entries auth ''institutions''" by simp
  from foldE_add_institution[OF s1 Cons.prems(2)] i
  have d1: "distinct (map eq_key s1)"
    and e1: "eq_key ` set s1 = eq_key ` set (snd acc) \<union>
       eq_key ` {n. \<exists>inst \<in> set (entries auth ''institutions'').
                     n = attr ''display_name'' inst \<and> truthy n}"
    by simp_all
  from Cons.IH[OF f] d1 acc1 obtain new where
    dicts: "\<forall>auth \<in> set auths. \<exists>kvs. auth = JDict kvs"
    and new: "fst acc' = (fst acc @ [info]) @ new"
      "list_all2 (\<lambda>auth out. lookup out ''institutions'' =
                     Some (JList (map institution_entry (entries auth ''institutions''))))
          auths new"
    and d': "distinct (map eq_key (snd acc'))"
    and e': "eq_key ` set (snd acc') = eq_key ` set s1 \<union>
       eq_key ` {n. \<exists>auth \<in> set auths. \<exists>inst \<in> set (entries auth ''institutions'').
                     n = attr ''display_name'' inst \<and> truthy n}"
    by auto
  have split: "{n. \<exists>a \<in> set (auth # auths). \<exists>inst \<in> set (entries a ''institutions'').
                     n = attr ''display_name'' inst \<and> truthy n} =
      {n. \<exists>inst \<in> set (entries auth ''institutions'').
                     n = attr ''display_name'' inst \<and> truthy n} \<union>
      {n. \<exists>auth \<in> set auths. \<exists>inst \<in> set (entries auth ''institutions'').
                     n = attr ''display_name'' inst \<and> truthy n}"
    by auto
  have "\<forall>a \<in> set (auth # auths). \<exists>kvs. a = JDict kvs"
    using dicts ai(1) by simp
  moreover have "\<exists>new'. fst acc' = fst acc @ new' \<and>
        list_all2 (\<lambda>auth out. lookup out ''institutions'' =
                     Some (JList (map institution_entry (entries auth ''institutions''))))
          (auth # auths) new'"
    using new ai(3) by (intro exI[of _ "info # new"]) simp
  moreover have "eq_key ` set (snd acc') =
       eq_key ` set (snd acc) \<union>
       eq_key ` {n. \<exists>a \<in> set (auth # auths). \<exists>inst \<in> set (entries a ''institutions'').
                     n = attr ''display_name'' inst \<and> truthy n}"
    unfolding split e' e1 by (simp add: image_Un Un_assoc)
  ultimately show ?case using d' by blast
qed

lemma authors_part_Inr:
  assumes "authors_part work = Inr authors"
  shows "list_all2 (\<lambda>auth out. lookup out ''institutions'' =
                     Some (JList (map institution_entry (entries auth ''institutions''))))
           (entries work ''authorships'') (fst authors)"
    and "length (snd authors) = card (eq_key ` institution_names work)"
proof -
  from assms obtain auths where
    auths: "bindE (py_get work ''authorships'' (JList [])) py_iter = Inr auths"
    and f: "foldE authors_step auths ([], []) = Inr authors"
    unfolding authors_part_def bindE_Inr_iff by blast
  from foldE_authors_step[OF f] obtain new where
    dicts: "\<forall>auth \<in> set auths. \<exists>kvs. auth = JDict kvs"
    and new: "fst authors = new"
      "list_all2 (\<lambda>auth out. lookup out ''institutions'' =
                     Some (JList (map institution_entry (entries auth ''institutions''))))
          auths new"
    and d: "distinct (map eq_key (snd authors))"
    and e: "eq_key ` set (snd authors) =
       eq_key ` {n. \<exists>auth \<in> set auths. \<exists>inst \<in> set (entries auth ''institutions'').
                     n = attr ''display_name'' inst \<and> truthy n}"
    by auto
  from iter_entries[OF auths dicts] have a: "auths = entries work ''authorships''" .
  with new show "list_all2 (\<lambda>auth out. lookup out ''institutions'' =
                     Some (JList (map institution_entry (entries auth ''institutions''))))
           (entries work ''authorships'') (fst authors)" by simp
  from d have "card (set (map eq_key (snd authors))) = length (map eq_key (snd authors))"
    by (rule distinct_card)
  with e a show "length (snd authors) = card (eq_key ` institution_names work)"
    by (simp add: institution_names_def)
qed

lemma enhance_unnamed:
  "enhance_work_data unnamed_institutions_work = Inr unnamed_institutions_flat"
  by (simp add: flat_defs unnamed_institutions_work_def unnamed_institutions_flat_def
      citation_ratio_absent)

lemma returned_institutions:
  assumes "enhance_work_data work = Inr flat"
  shows "(\<exists>authors.
            lookup flat ''authors'' = Some (JList authors) \<and>
            list_all2 (\<lambda>auth out. lookup out ''institutions'' =
                         Some (JList (map institution_entry (entries auth ''institutions''))))
              (entries work ''authorships'') authors) \<and>
         lookup flat ''institutions_count'' =
           Some (JInt (int (card (eq_key ` institution_names work)))) \<and>
         flat_field ''institutions_count'' (enhance_work_data unnamed_institutions_work) =
           Some (JInt 0) \<and>
         map (\<lambda>auth. length (entries auth ''institutions''))
           (entries unnamed_institutions_work ''authorships'') = [2]"
proof -
  from assms obtain fs ds ks authors ratio journal topic where
    a: "authors_part work = Inr authors"
    and flat: "flat = flat_record (attr ''id'' work) (attr ''display_name'' work)
       (attr ''publication_year'' work) (attr ''cited_by_count'' work)
       (attr ''referenced_works_count'' work) (attr ''type'' work) (fst authors) (snd authors)
       (map JStr fs) (map JStr ds) (map JStr ks) ratio journal topic"
    by (rule enhance_work_data_lists)
  note ap = authors_part_Inr[OF a]
  have "\<exists>authors.
            lookup flat ''authors'' = Some (JList authors) \<and>
            list_all2 (\<lambda>auth out. lookup out ''institutions'' =
                         Some (JList (map institution_entry (entries auth ''institutions''))))
              (entries work ''authorships'') authors"
    using ap(1) flat by (intro exI[of _ "fst authors"]) (simp add: lookup_flat_record)
  moreover have "lookup flat ''institutions_count'' =
           Some (JInt (int (card (eq_key ` institution_names work))))"
    using ap(2) flat by (simp add: lookup_flat_record)
  moreover have "flat_field ''institutions_count''
      (enhance_work_data unnamed_institutions_work) = Some (JInt 0)"
    by (simp add: enhance_unnamed flat_field_def unnamed_institutions_flat_def
        lookup_flat_record)
  moreover have "map (\<lambda>auth. length (entries auth ''institutions''))
           (entries unnamed_institutions_work ''authorships'') = [2]"
    by (simp add: unnamed_institutions_work_def entries_def lookup_def)
  ultimately show ?thesis by blast
qed

section \<open>When the flattener returns\<close>

lemma round_half_even_le: "of_int (round_half_even y) \<le> y + 1 / 2"
proof (cases "y - of_int \<lfloor>y\<rfloor> < 1 / 2")
  case True
  then have "round_half_even y = \<lfloor>y\<rfloor>" by (simp add: round_half_even_def Let_def)
  with of_int_floor_le[of y] show ?thesis by linarith
next
  case False
  have "round_half_even y \<le> \<lfloor>y\<rfloor> + 1" by (simp add: round_half_even_def Let_def)
  then have "(of_int (round_half_even y) :: rat) \<le> of_int (\<lfloor>y\<rfloor> + 1)"
    by (simp only: of_int_le_iff)
  with False show ?thesis by simp
qed

lemma pow2_le_one: "k \<le> 0 \<Longrightarrow> pow2 k \<le> 1"
  by (simp add: pow2_def divide_le_eq_1)

lemma pow2_le_power: "0 \<le> e \<Longrightarrow> pow2 (e - 52) \<le> 2 ^ nat e"
proof (cases "52 \<le> e")
  case True
  then have "pow2 (e - 52) = 2 ^ nat (e - 52)" by (simp add: pow2_def)
  also have "\<dots> \<le> (2::rat) ^ nat e" using True by (intro power_increasing) simp_all
  finally show ?thesis .
next
  case False
  assume "0 \<le> e"
  from False have "pow2 (e - 52) \<le> 1" by (intro pow2_le_one) simp
  also have "(1::rat) \<le> 2 ^ nat e" by simp
  finally show ?thesis .
qed

lemma ulp_le:
  assumes "0 < x"
  shows "pow2 (max (ilog2 x) (- 1022) - 52) \<le> max 1 x"
proof (cases "1 \<le> x")
  case False
  then have "ilog2 x \<le> 0" by (simp add: ilog2_def bitlen_nonneg)
  then have "pow2 (max (ilog2 x) (- 1022) - 52) \<le> 1" by (intro pow2_le_one) simp
  then show ?thesis by simp
next
  case True
  then have fl: "0 < \<lfloor>x\<rfloor>" by simp
  define e where "e = bitlen \<lfloor>x\<rfloor> - 1"
  have il: "ilog2 x = e" using True by (simp add: ilog2_def e_def)
  from bitlen_bounds[OF fl] have b: "2 ^ nat e \<le> \<lfloor>x\<rfloor>" by (simp add: e_def)
  show ?thesis
  proof (cases "0 \<le> e")
    case False
    then have "pow2 (max e (- 1022) - 52) \<le> 1" by (intro pow2_le_one) simp
    then show ?thesis by (simp add: il)
  next
    case e: True
    then have "pow2 (max e (- 1022) - 52) = pow2 (e - 52)" by (simp add: max_def)
    also have "\<dots> \<le> 2 ^ nat e" using e by (rule pow2_le_power)
    also have "\<dots> = of_int (2 ^ nat e)" by simp
    also have "\<dots> \<le> of_int \<lfloor>x\<rfloor>" using b by (simp only: of_int_le_iff)
    also have "\<dots> \<le> x" by simp
    finally show ?thesis by (simp add: il)
  qed
qed

lemma fl64_upper:
  assumes "0 < x"
  shows "fl64 x \<le> x + max 1 x / 2"
proof -
  define ulp where "ulp = pow2 (max (ilog2 x) (- 1022) - 52)"
  have pos: "0 < ulp" by (simp add: ulp_def pow2_pos)
  have le: "ulp \<le> max 1 x" using ulp_le[OF assms] by (simp add: ulp_def)
  have "fl64 x = of_int (round_half_even (x / ulp)) * ulp"
    using assms by (simp add: fl64_def ulp_def Let_def)
  also have "\<dots> \<le> (x / ulp + 1 / 2) * ulp"
    using round_half_even_le[of "x / ulp"] pos by (intro mult_right_mono) simp_all
  also have "\<dots> = x + ulp / 2" using pos by (simp add: field_simps)
  also have "\<dots> \<le> x + max 1 x / 2" using le by simp
  finally show ?thesis .
qed

lemma int_truediv_returns:
  assumes "0 \<le> a" and "a < 2 ^ 1023" and "0 < b"
  shows "\<exists>q. int_truediv a b = Inr (Finite q)"
proof (cases "a = 0")
  case True
  with assms show ?thesis by (simp add: int_truediv_def fl64_def signed_zero_def)
next
  case False
  define x :: rat where "x = of_int a / of_int b"
  from False assms have x: "0 < x" by (simp add: x_def)
  have "x \<le> of_int a"
    using assms by (simp add: x_def divide_le_eq mult_le_cancel_left1)
  moreover have "a \<le> 2 ^ 1023 - 1" using assms(2) by simp
  then have "(of_int a :: rat) \<le> of_int (2 ^ 1023 - 1)" by (simp only: of_int_le_iff)
  ultimately have up: "x \<le> 2 ^ 1023 - 1" by simp
  then have "max 1 x \<le> 2 ^ 1023" by simp
  with fl64_upper[OF x] up have "fl64 x \<le> (2 ^ 1023 - 1) + 2 ^ 1023 / 2" by linarith
  then have lt: "fl64 x < 2 ^ 1024" by simp
  have "0 \<le> fl64 x" using x by (intro fl64_nonneg) simp
  with lt have "\<not> 2 ^ 1024 \<le> \<bar>fl64 x\<bar>" by simp
  then show ?thesis
    using assms by (auto simp: int_truediv_def x_def Let_def signed_zero_def)
qed

lemma citation_ratio_returns:
  assumes "is_count cited" and "count_of cited < 2 ^ 1023" and "is_count refs"
  shows "\<exists>ratio. citation_ratio cited refs = Inr ratio"
proof -
  have "0 \<le> count_of cited" using assms(1) by (cases cited) simp_all
  moreover have "0 < max (count_of refs) 1" by simp
  ultimately obtain q where
    "int_truediv (count_of cited) (max (count_of refs) 1) = Inr (Finite q)"
    using int_truediv_returns[OF _ assms(2)] by blast
  then show ?thesis by (simp add: citation_ratio_counts[OF assms(1,3)])
qed


lemma is_dictE: "is_dict obj \<Longrightarrow> \<exists>kvs. obj = JDict kvs"
  by (cases obj) simp_all

lemma py_get_returns: "is_dict obj \<Longrightarrow> py_get obj k JNull = Inr (attr k obj)"
  by (auto dest!: is_dictE simp: attr_def lookup_def)

lemma has_str_dict: "has_str k obj \<Longrightarrow> is_dict obj"
  by (cases obj) (simp_all add: has_str_def lookup_def)

lemma has_str_attr: "has_str k obj \<Longrightarrow> \<exists>s. attr k obj = JStr s"
  by (auto simp: has_str_def attr_def split: option.splits json.splits)

lemma iter_returns:
  assumes "is_dict obj" and "absent_or_list P (lookup obj k)"
  shows "bindE (py_get obj k (JList [])) py_iter = Inr (entries obj k)"
    and "list_all P (entries obj k)"
proof -
  from assms(1) obtain kvs where obj: "obj = JDict kvs" by (auto dest: is_dictE)
  with assms(2) show "bindE (py_get obj k (JList [])) py_iter = Inr (entries obj k)"
    by (auto simp: absent_or_list_def entries_def lookup_def split: option.splits json.splits)
  from obj assms(2) show "list_all P (entries obj k)"
    by (auto simp: absent_or_list_def entries_def lookup_def split: option.splits json.splits)
qed

lemma mapE_returns: "(\<forall>x \<in> set xs. f x = Inr (g x)) \<Longrightarrow> mapE f xs = Inr (map g xs)"
  by (induction xs) simp_all

lemma institution_info_returns:
  "is_dict inst \<Longrightarrow> institution_info inst = Inr (institution_entry inst)"
  by (simp add: institution_info_def institution_entry_def py_get_returns)

lemma author_info_returns:
  assumes "well_formed_authorship auth"
  shows "\<exists>info. author_info auth = Inr info"
proof -
  from assms have d: "is_dict auth"
    and a: "case lookup auth ''author'' of None \<Rightarrow> True | Some a \<Rightarrow> is_dict a"
    and i: "absent_or_list well_formed_institution (lookup auth ''institutions'')"
    by (simp_all add: well_formed_authorship_def)
  from d obtain kvs where auth: "auth = JDict kvs" by (auto dest: is_dictE)
  define author where
    "author = (case map_of kvs ''author'' of Some v \<Rightarrow> v | None \<Rightarrow> JDict [])"
  have g: "py_get auth ''author'' (JDict []) = Inr author" by (simp add: auth author_def)
  have "is_dict author" using a
    by (auto simp: author_def auth lookup_def split: option.splits)
  then have ga: "\<And>k. py_get author k JNull = Inr (attr k author)" by (rule py_get_returns)
  from iter_returns[OF d i] have it:
    "bindE (py_get auth ''institutions'' (JList [])) py_iter =
       Inr (entries auth ''institutions'')"
    and wf: "list_all well_formed_institution (entries auth ''institutions'')" by simp_all
  have "mapE institution_info (entries auth ''institutions'') =
      Inr (map institution_entry (entries auth ''institutions''))"
    using wf by (intro mapE_returns)
      (auto simp: list_all_iff well_formed_institution_def institution_info_returns)
  with g ga it py_get_returns[OF d] show ?thesis
    by (simp add: author_info_def)
qed

lemma foldE_add_institution_returns:
  "list_all well_formed_institution insts \<Longrightarrow> \<exists>s'. foldE add_institution insts s = Inr s'"
proof (induction insts arbitrary: s)
  case Nil
  then show ?case by simp
next
  case (Cons inst insts)
  then have w: "well_formed_institution inst" and r: "list_all well_formed_institution insts"
    by simp_all
  from w have "\<exists>s1. add_institution s inst = Inr s1"
    by (auto simp: add_institution_def well_formed_institution_def py_get_returns set_add_def)
  then obtain s1 where "add_institution s inst = Inr s1" by blast
  with Cons.IH[OF r, of s1] show ?case by simp
qed

lemma foldE_authors_step_returns:
  "list_all well_formed_authorship auths \<Longrightarrow> \<exists>acc'. foldE authors_step auths acc = Inr acc'"
proof (induction auths arbitrary: acc)
  case Nil
  then show ?case by simp
next
  case (Cons auth auths)
  then have w: "well_formed_authorship auth" and r: "list_all well_formed_authorship auths"
    by simp_all
  from author_info_returns[OF w] obtain info where info: "author_info auth = Inr info"
    by blast
  from w have d: "is_dict auth"
    and i: "absent_or_list well_formed_institution (lookup auth ''institutions'')"
    by (simp_all add: well_formed_authorship_def)
  note it = iter_returns[OF d i]
  from foldE_add_institution_returns[OF it(2), of "snd acc"] obtain s1 where
    "foldE add_institution (entries auth ''institutions'') (snd acc) = Inr s1" by blast
  with info it(1) have "authors_step acc auth = Inr (fst acc @ [info], s1)"
    by (simp add: authors_step_def)
  with Cons.IH[OF r, of "(fst acc @ [info], s1)"] show ?case by simp
qed

lemma authors_part_returns:
  assumes "is_dict work"
    and "absent_or_list well_formed_authorship (lookup work ''authorships'')"
  shows "\<exists>authors. authors_part work = Inr authors"
  using iter_returns[OF assms] foldE_authors_step_returns[of "entries work ''authorships''"]
  by (simp add: authors_part_def)

lemma py_subscript_returns:
  "is_dict obj \<Longrightarrow> truthy (attr k obj) \<Longrightarrow> py_subscript obj k = Inr (attr k obj)"
  by (auto dest!: is_dictE simp: attr_def lookup_def split: option.splits)

lemma topic_name_returns:
  assumes "is_dict topic" and "named_or_empty (attr key topic)"
  shows "topic_name key topic =
     Inr (if truthy (attr key topic) then [attr ''display_name'' (attr key topic)] else [])"
proof (cases "truthy (attr key topic)")
  case False
  with assms(1) show ?thesis by (simp add: topic_name_def py_get_returns)
next
  case True
  with assms(2) have "is_dict (attr key topic)"
    by (auto simp: named_or_empty_def dest: has_str_dict)
  with True assms(1) show ?thesis
    by (simp add: topic_name_def py_get_returns py_subscript_returns)
qed

lemma concat_filter:
  "concat (map (\<lambda>x. if P x then [f x] else []) xs) = map f (filter P xs)"
  by (induction xs) simp_all

lemma all_strings: "(\<forall>n \<in> set xs. \<exists>s. n = JStr s) \<Longrightarrow> \<exists>ss. xs = map JStr ss"
proof (induction xs)
  case Nil
  then show ?case by simp
next
  case (Cons x xs)
  then obtain s ss where "x = JStr s" "xs = map JStr ss" by auto
  then have "x # xs = map JStr (s # ss)" by simp
  then show ?case by (rule exI)
qed

lemma topic_names_returns:
  assumes "is_dict work" and "absent_or_list well_formed_topic (lookup work ''topics'')"
    and "key = ''field'' \<or> key = ''domain''"
  shows "topic_names key work = Inr (spec_topic_names key work)"
    and "\<exists>ss. spec_topic_names key work = map JStr ss"
proof -
  note it = iter_returns[OF assms(1,2)]
  have each: "\<forall>t \<in> set (entries work ''topics'').
      is_dict t \<and> named_or_empty (attr key t)"
    using it(2) assms(3) by (auto simp: list_all_iff well_formed_topic_def)
  then have "mapE (topic_name key) (entries work ''topics'') =
      Inr (map (\<lambda>t. if truthy (attr key t) then [attr ''display_name'' (attr key t)] else [])
             (entries work ''topics''))"
    by (intro mapE_returns) (simp add: topic_name_returns)
  with it(1) show "topic_names key work = Inr (spec_topic_names key work)"
    by (simp add: topic_names_def spec_topic_names_def concat_filter)
  have "\<forall>n \<in> set (spec_topic_names key work). \<exists>s. n = JStr s"
    using each by (auto simp: spec_topic_names_def named_or_empty_def dest: has_str_attr)
  then show "\<exists>ss. spec_topic_names key work = map JStr ss"
    by (rule all_strings)
qed


lemma keyword_names_returns:
  assumes "is_dict work"
    and "absent_or_list (has_str ''display_name'') (lookup work ''concepts'')"
    and "entries work ''concepts'' = [] \<and>
           absent_or_list (has_str ''keyword'') (lookup work ''keywords'') \<or>
         entries work ''concepts'' \<noteq> []"
  shows "keyword_names work = Inr (spec_keywords work)"
    and "\<exists>ss. spec_keywords work = map JStr ss"
proof -
  note it = iter_returns[OF assms(1,2)]
  have cs: "mapE (\<lambda>k. py_get k ''display_name'' JNull) (entries work ''concepts'') =
      Inr (map (attr ''display_name'') (entries work ''concepts''))"
    using it(2) by (intro mapE_returns) (auto simp: list_all_iff py_get_returns has_str_dict)
  show "keyword_names work = Inr (spec_keywords work)"
  proof (cases "entries work ''concepts'' = []")
    case False
    with it(1) cs show ?thesis by (simp add: keyword_names_def spec_keywords_def)
  next
    case True
    with assms(3) have k: "absent_or_list (has_str ''keyword'') (lookup work ''keywords'')"
      by simp
    note itk = iter_returns[OF assms(1) k]
    have "mapE (\<lambda>k. py_get k ''keyword'' JNull) (entries work ''keywords'') =
      Inr (map (attr ''keyword'') (entries work ''keywords''))"
      using itk(2) by (intro mapE_returns) (auto simp: list_all_iff py_get_returns has_str_dict)
    with it(1) itk(1) cs True show ?thesis by (simp add: keyword_names_def spec_keywords_def)
  qed
  have "\<forall>n \<in> set (spec_keywords work). \<exists>s. n = JStr s"
  proof (cases "entries work ''concepts'' = []")
    case False
    with it(2) show ?thesis
      by (auto simp: spec_keywords_def list_all_iff dest: has_str_attr)
  next
    case True
    with assms(3) have k: "absent_or_list (has_str ''keyword'') (lookup work ''keywords'')"
      by simp
    from iter_returns(2)[OF assms(1) k] True show ?thesis
      by (auto simp: spec_keywords_def list_all_iff dest: has_str_attr)
  qed
  then show "\<exists>ss. spec_keywords work = map JStr ss" by (rule all_strings)
qed

lemma foldE_set_add_strings:
  "\<exists>us. foldE set_add (map JStr ss) (map JStr ts) = Inr (map JStr us)"
proof (induction ss arbitrary: ts)
  case Nil
  then show ?case by auto
next
  case (Cons s ss)
  have "set_add (map JStr ts) (JStr s) = Inr (map JStr ts) \<or>
        set_add (map JStr ts) (JStr s) = Inr (map JStr (ts @ [s]))"
    by (simp add: set_add_def)
  with Cons.IH[of ts] Cons.IH[of "ts @ [s]"] show ?case by auto
qed

lemma sorted_set_returns: "\<exists>us. sorted_set (map JStr ss) = Inr (map JStr us)"
proof -
  from foldE_set_add_strings[of ss "[]"] obtain us where
    "py_set (map JStr ss) = Inr (map JStr us)" by (auto simp: py_set_def)
  moreover have "those (map str_of (map JStr us)) = Some us" by (simp only: those_str_of)
  then have "py_sorted (map JStr us) = Inr (map JStr (sort us))"
    unfolding py_sorted_def by (simp only: option.case)
  ultimately show ?thesis by (auto simp: sorted_set_def)
qed

lemma research_topic_returns:
  assumes "truthy title \<and> str_of title \<noteq> None \<or> \<not> truthy title"
  shows "\<exists>topic. research_topic title (map JStr fs) (map JStr ds) (map JStr ks) = Inr topic"
proof -
  define parts where
    "parts = filter (\<lambda>s. s \<noteq> []) [join_str '', '' fs, join_str '', '' ds, join_str '', '' ks]"
  have flt: "filter truthy [JStr (join_str '', '' fs), JStr (join_str '', '' ds),
      JStr (join_str '', '' ks)] = map JStr parts"
    by (simp add: parts_def)
  have r: "research_topic title (map JStr fs) (map JStr ds) (map JStr ks) =
      py_join '' | '' (filter truthy [title, JStr (join_str '', '' fs),
        JStr (join_str '', '' ds), JStr (join_str '', '' ks)])"
    by (simp add: research_topic_def joined_or_empty_strs)
  show ?thesis
  proof (cases "truthy title")
    case False
    with flt have "research_topic title (map JStr fs) (map JStr ds) (map JStr ks) =
        py_join '' | '' (map JStr parts)" unfolding r by simp
    then show ?thesis by (simp add: py_join_strs)
  next
    case True
    with assms obtain t where t: "title = JStr t" by (cases title) auto
    with True flt have "research_topic title (map JStr fs) (map JStr ds) (map JStr ks) =
        py_join '' | '' (map JStr (t # parts))" unfolding r by simp
    then show ?thesis by (simp only: py_join_strs) blast
  qed
qed

lemma journal_info_returns:
  assumes "is_dict work"
    and "truthy (attr ''primary_location'' work) \<and> is_dict (attr ''primary_location'' work) \<and>
        (truthy (attr ''source'' (attr ''primary_location'' work)) \<and>
           is_dict (attr ''source'' (attr ''primary_location'' work)) \<or>
         \<not> truthy (attr ''source'' (attr ''primary_location'' work))) \<or>
      \<not> truthy (attr ''primary_location'' work)"
  shows "\<exists>journal. journal_info work = Inr journal"
proof (cases "truthy (attr ''primary_location'' work)")
  case False
  with assms(1) show ?thesis by (simp add: journal_info_def py_get_returns)
next
  case True
  with assms(2) have pl: "is_dict (attr ''primary_location'' work)"
    and src: "truthy (attr ''source'' (attr ''primary_location'' work)) \<and>
           is_dict (attr ''source'' (attr ''primary_location'' work)) \<or>
         \<not> truthy (attr ''source'' (attr ''primary_location'' work))"
    by auto
  show ?thesis
  proof (cases "truthy (attr ''source'' (attr ''primary_location'' work))")
    case False
    with True assms(1) pl show ?thesis
      by (simp add: journal_info_def py_get_returns py_subscript_returns)
  next
    case s: True
    with src have "is_dict (attr ''source'' (attr ''primary_location'' work))" by simp
    with s True assms(1) pl show ?thesis
      by (simp add: journal_info_def py_get_returns py_subscript_returns)
  qed
qed

text \<open>A record of the shape the source delivers is flattened without an exception.\<close>

lemma enhance_work_data_returns:
  assumes "well_formed work"
  shows "\<exists>flat. enhance_work_data work = Inr flat"
proof -
  from assms have d: "is_dict work"
    and wa: "absent_or_list well_formed_authorship (lookup work ''authorships'')"
    and wt: "absent_or_list well_formed_topic (lookup work ''topics'')"
    and wc: "absent_or_list (has_str ''display_name'') (lookup work ''concepts'')"
    and wk: "entries work ''concepts'' = [] \<and>
        absent_or_list (has_str ''keyword'') (lookup work ''keywords'') \<or>
      entries work ''concepts'' \<noteq> []"
    and ti: "truthy (attr ''display_name'' work) \<and> str_of (attr ''display_name'' work) \<noteq> None \<or>
      \<not> truthy (attr ''display_name'' work)"
    and co: "is_count (attr ''cited_by_count'' work)"
      "count_of (attr ''cited_by_count'' work) < 2 ^ 1023"
      "is_count (attr ''referenced_works_count'' work)"
    and pl: "truthy (attr ''primary_location'' work) \<and> is_dict (attr ''primary_location'' work) \<and>
        (truthy (attr ''source'' (attr ''primary_location'' work)) \<and>
           is_dict (attr ''source'' (attr ''primary_location'' work)) \<or>
         \<not> truthy (attr ''source'' (attr ''primary_location'' work))) \<or>
      \<not> truthy (attr ''primary_location'' work)"
    unfolding well_formed_def by blast+
  from authors_part_returns[OF d wa] obtain authors where a: "authors_part work = Inr authors"
    by blast
  from topic_names_returns[OF d wt, of "''field''"] obtain fs where
    f: "topic_names ''field'' work = Inr (map JStr fs)" by auto
  from topic_names_returns[OF d wt, of "''domain''"] obtain ds where
    dm: "topic_names ''domain'' work = Inr (map JStr ds)" by auto
  from keyword_names_returns[OF d wc wk] obtain ks where
    k: "keyword_names work = Inr (map JStr ks)" by auto
  from sorted_set_returns[of fs] obtain sf where sf: "sorted_set (map JStr fs) = Inr (map JStr sf)"
    by blast
  from sorted_set_returns[of ds] obtain sd where sd: "sorted_set (map JStr ds) = Inr (map JStr sd)"
    by blast
  from sorted_set_returns[of ks] obtain sk where sk: "sorted_set (map JStr ks) = Inr (map JStr sk)"
    by blast
  from citation_ratio_returns[OF co] obtain ratio where
    r: "citation_ratio (attr ''cited_by_count'' work) (attr ''referenced_works_count'' work)
          = Inr ratio" by blast
  from journal_info_returns[OF d pl] obtain journal where j: "journal_info work = Inr journal"
    by blast
  from research_topic_returns[OF ti, of sf sd "take 5 sk"] obtain topic where
    t: "research_topic (attr ''display_name'' work) (map JStr sf) (map JStr sd)
          (take 5 (map JStr sk)) = Inr topic"
    by (auto simp: take_map)
  from a f dm k sf sd sk r j t show ?thesis
    by (simp add: enhance_work_data_def py_get_returns[OF d])
qed

section \<open>The lists, the top keywords and the institutions\<close>

lemma enhance_rich: "enhance_work_data rich_work = Inr rich_flat"
  by (simp add: flat_defs rich_work_def rich_flat_def citation_ratio_def py_or_def
      py_truediv_def int_truediv_3_2 py_round3_3_2 del: py_round3.simps)

lemma well_formed_rich: "well_formed rich_work"
  by (simp add: well_formed_def rich_work_def absent_or_list_def well_formed_authorship_def
      well_formed_institution_def well_formed_topic_def named_or_empty_def has_str_def
      lookup_def attr_def entries_def)

lemma rich_sources:
  "spec_topic_names ''field'' rich_work = [JStr ''Physics'', JStr ''Biology'', JStr ''Physics'']"
  "spec_topic_names ''domain'' rich_work = [JStr ''Science'', JStr ''Science'', JStr ''Health'']"
  "spec_keywords rich_work =
     [JStr ''g'', JStr ''c'', JStr ''a'', JStr ''f'', JStr ''c'', JStr ''b'', JStr ''e'',
      JStr ''d'']"
  by (simp_all add: spec_topic_names_def spec_keywords_def rich_work_def entries_def lookup_def
      attr_def)

text \<open>
  Claim C6. A record of the shape the source delivers is flattened, and in every record
  the flattener returns the lists of fields, domains and keywords hold strings in
  strictly ascending order (sorted, no entry twice); they hold exactly the names of the
  source: the display names of the topics' fields and domains, and for the keywords the
  display names of the concepts, or the keywords' names when there is no concept.
\<close>

theorem sorted_unique_lists:
  "(well_formed work \<longrightarrow> (\<exists>flat. enhance_work_data work = Inr flat)) \<and>
   (\<forall>flat. enhance_work_data work = Inr flat \<longrightarrow>
      (\<exists>fs ds ks.
         lookup flat ''fields'' = Some (JList (map JStr fs)) \<and> sorted fs \<and> distinct fs \<and>
         JStr ` set fs = set (spec_topic_names ''field'' work) \<and>
         lookup flat ''domains'' = Some (JList (map JStr ds)) \<and> sorted ds \<and> distinct ds \<and>
         JStr ` set ds = set (spec_topic_names ''domain'' work) \<and>
         lookup flat ''keywords'' = Some (JList (map JStr ks)) \<and> sorted ks \<and> distinct ks \<and>
         JStr ` set ks = set (spec_keywords work)))"
  using enhance_work_data_returns[of work] returned_lists[of work] by blast

text \<open>
  The fuller sample record: fields and domains given twice and out of order, eight
  concepts out of order with one twice, and a keyword that is passed over.
\<close>

theorem sorted_unique_lists_witness:
  "(\<exists>flat. enhance_work_data rich_work = Inr flat) \<and>
   (\<exists>fs ds ks.
      lookup rich_flat ''fields'' = Some (JList (map JStr fs)) \<and> sorted fs \<and> distinct fs \<and>
      JStr ` set fs = set (spec_topic_names ''field'' rich_work) \<and>
      lookup rich_flat ''domains'' = Some (JList (map JStr ds)) \<and> sorted ds \<and> distinct ds \<and>
      JStr ` set ds = set (spec_topic_names ''domain'' rich_work) \<and>
      lookup rich_flat ''keywords'' = Some (JList (map JStr ks)) \<and> sorted ks \<and> distinct ks \<and>
      JStr ` set ks = set (spec_keywords rich_work)) \<and>
   spec_topic_names ''field'' rich_work = [JStr ''Physics'', JStr ''Biology'', JStr ''Physics''] \<and>
   lookup rich_flat ''fields'' = Some (JList [JStr ''Biology'', JStr ''Physics'']) \<and>
   spec_topic_names ''domain'' rich_work = [JStr ''Science'', JStr ''Science'', JStr ''Health''] \<and>
   lookup rich_flat ''domains'' = Some (JList [JStr ''Health'', JStr ''Science'']) \<and>
   spec_keywords rich_work =
     [JStr ''g'', JStr ''c'', JStr ''a'', JStr ''f'', JStr ''c'', JStr ''b'', JStr ''e'',
      JStr ''d''] \<and>
   lookup rich_flat ''keywords'' =
     Some (JList [JStr ''a'', JStr ''b'', JStr ''c'', JStr ''d'', JStr ''e'', JStr ''f'',
                  JStr ''g''])"
proof -
  note here = sorted_unique_lists[of rich_work]
  from here well_formed_rich have "\<exists>flat. enhance_work_data rich_work = Inr flat" by blast
  moreover from here enhance_rich have "\<exists>fs ds ks.
      lookup rich_flat ''fields'' = Some (JList (map JStr fs)) \<and> sorted fs \<and> distinct fs \<and>
      JStr ` set fs = set (spec_topic_names ''field'' rich_work) \<and>
      lookup rich_flat ''domains'' = Some (JList (map JStr ds)) \<and> sorted ds \<and> distinct ds \<and>
      JStr ` set ds = set (spec_topic_names ''domain'' rich_work) \<and>
      lookup rich_flat ''keywords'' = Some (JList (map JStr ks)) \<and> sorted ks \<and> distinct ks \<and>
      JStr ` set ks = set (spec_keywords rich_work)" by blast
  moreover have "lookup rich_flat ''fields'' = Some (JList [JStr ''Biology'', JStr ''Physics''])"
    "lookup rich_flat ''domains'' = Some (JList [JStr ''Health'', JStr ''Science''])"
    "lookup rich_flat ''keywords'' =
     Some (JList [JStr ''a'', JStr ''b'', JStr ''c'', JStr ''d'', JStr ''e'', JStr ''f'',
                  JStr ''g''])"
    by (simp_all add: rich_flat_def lookup_flat_record)
  ultimately show ?thesis using rich_sources by blast
qed

text \<open>
  Claim C7. A record of the shape the source delivers is flattened, however many keywords
  it has, and in every record the flattener returns \<^verbatim>\<open>top_keywords\<close> is the first
  \<open>min 5 (length keywords)\<close> entries of the sorted, duplicate-free keyword list.
\<close>

theorem top_keywords_prefix:
  "(well_formed work \<longrightarrow> (\<exists>flat. enhance_work_data work = Inr flat)) \<and>
   (\<forall>flat. enhance_work_data work = Inr flat \<longrightarrow>
      (\<exists>ks. lookup flat ''keywords'' = Some (JList (map JStr ks)) \<and>
            sorted ks \<and> distinct ks \<and> JStr ` set ks = set (spec_keywords work) \<and>
            lookup flat ''top_keywords'' =
              Some (JList (map JStr (take (min 5 (length ks)) ks)))))"
  using enhance_work_data_returns[of work] returned_top_keywords[of work] by blast

text \<open>The fuller sample record has seven distinct keywords; the first five are kept.\<close>

theorem top_keywords_prefix_witness:
  "(\<exists>flat. enhance_work_data rich_work = Inr flat) \<and>
   (\<exists>ks. lookup rich_flat ''keywords'' = Some (JList (map JStr ks)) \<and>
         sorted ks \<and> distinct ks \<and> JStr ` set ks = set (spec_keywords rich_work) \<and>
         lookup rich_flat ''top_keywords'' =
           Some (JList (map JStr (take (min 5 (length ks)) ks)))) \<and>
   lookup rich_flat ''keywords'' =
     Some (JList [JStr ''a'', JStr ''b'', JStr ''c'', JStr ''d'', JStr ''e'', JStr ''f'',
                  JStr ''g'']) \<and>
   lookup rich_flat ''top_keywords'' =
     Some (JList [JStr ''a'', JStr ''b'', JStr ''c'', JStr ''d'', JStr ''e''])"
proof -
  note here = top_keywords_prefix[of rich_work]
  from here well_formed_rich have "\<exists>flat. enhance_work_data rich_work = Inr flat" by blast
  moreover from here enhance_rich have
    "\<exists>ks. lookup rich_flat ''keywords'' = Some (JList (map JStr ks)) \<and>
         sorted ks \<and> distinct ks \<and> JStr ` set ks = set (spec_keywords rich_work) \<and>
         lookup rich_flat ''top_keywords'' =
           Some (JList (map JStr (take (min 5 (length ks)) ks)))" by blast
  moreover have "lookup rich_flat ''keywords'' =
     Some (JList [JStr ''a'', JStr ''b'', JStr ''c'', JStr ''d'', JStr ''e'', JStr ''f'',
                  JStr ''g''])"
    "lookup rich_flat ''top_keywords'' =
     Some (JList [JStr ''a'', JStr ''b'', JStr ''c'', JStr ''d'', JStr ''e''])"
    by (simp_all add: rich_flat_def lookup_flat_record)
  ultimately show ?thesis by blast
qed

lemma rich_institution_names:
  "eq_key ` institution_names rich_work = {eq_key (JStr ''MIT''), eq_key (JStr ''ETH'')}"
proof -
  have "institution_names rich_work = {JStr ''MIT'', JStr ''ETH''}"
    by (auto simp: institution_names_def rich_work_def entries_def lookup_def attr_def)
  then show ?thesis by simp
qed

text \<open>
  Claim C10. A record of the shape the source delivers is flattened, whatever names its
  institutions have, and in every record the flattener returns each author's list of
  institutions has one entry for every institution entry of the authorship, in order,
  whatever its display name; \<^verbatim>\<open>institutions_count\<close> is the number of distinct truthy
  display names (distinct as a Python set tells them apart). An entry without a display
  name, or with an empty one, is listed and not counted: a sample record lists two
  institutions and counts none.
\<close>

theorem institutions_listed_and_counted:
  "(well_formed work \<longrightarrow> (\<exists>flat. enhance_work_data work = Inr flat)) \<and>
   (\<forall>flat. enhance_work_data work = Inr flat \<longrightarrow>
      (\<exists>authors.
         lookup flat ''authors'' = Some (JList authors) \<and>
         list_all2 (\<lambda>auth out. lookup out ''institutions'' =
                      Some (JList (map institution_entry (entries auth ''institutions''))))
           (entries work ''authorships'') authors) \<and>
      lookup flat ''institutions_count'' =
        Some (JInt (int (card (eq_key ` institution_names work))))) \<and>
   flat_field ''institutions_count'' (enhance_work_data unnamed_institutions_work) =
     Some (JInt 0) \<and>
   map (\<lambda>auth. length (entries auth ''institutions''))
     (entries unnamed_institutions_work ''authorships'') = [2]"
proof (intro conjI impI allI)
  assume "well_formed work"
  then show "\<exists>flat. enhance_work_data work = Inr flat" by (rule enhance_work_data_returns)
next
  fix flat assume r: "enhance_work_data work = Inr flat"
  from returned_institutions[OF r]
  show "\<exists>authors.
         lookup flat ''authors'' = Some (JList authors) \<and>
         list_all2 (\<lambda>auth out. lookup out ''institutions'' =
                      Some (JList (map institution_entry (entries auth ''institutions''))))
           (entries work ''authorships'') authors" by (elim conjE)
  from returned_institutions[OF r]
  show "lookup flat ''institutions_count'' =
        Some (JInt (int (card (eq_key ` institution_names work))))" by (elim conjE)
next
  from returned_institutions[OF enhance_unnamed]
  show "flat_field ''institutions_count'' (enhance_work_data unnamed_institutions_work) =
     Some (JInt 0)" by (elim conjE)
  from returned_institutions[OF enhance_unnamed]
  show "map (\<lambda>auth. length (entries auth ''institutions''))
     (entries unnamed_institutions_work ''authorships'') = [2]" by (elim conjE)
qed

text \<open>
  The fuller sample record: two authors with two institutions each are listed in full;
  of the four entries one has no name and two share theirs, so two are counted.
\<close>

theorem institutions_listed_and_counted_witness:
  "(\<exists>flat. enhance_work_data rich_work = Inr flat) \<and>
   (\<exists>authors.
      lookup rich_flat ''authors'' = Some (JList authors) \<and>
      list_all2 (\<lambda>auth out. lookup out ''institutions'' =
                   Some (JList (map institution_entry (entries auth ''institutions''))))
        (entries rich_work ''authorships'') authors) \<and>
   lookup rich_flat ''institutions_count'' =
     Some (JInt (int (card (eq_key ` institution_names rich_work)))) \<and>
   lookup rich_flat ''institutions_count'' = Some (JInt 2) \<and>
   map (\<lambda>auth. length (entries auth ''institutions'')) (entries rich_work ''authorships'')
     = [2, 2] \<and>
   flat_field ''institutions_count'' (enhance_work_data unnamed_institutions_work) =
     Some (JInt 0) \<and>
   map (\<lambda>auth. length (entries auth ''institutions''))
     (entries unnamed_institutions_work ''authorships'') = [2]"
proof -
  note here = institutions_listed_and_counted[of rich_work]
  from here well_formed_rich have "\<exists>flat. enhance_work_data rich_work = Inr flat" by blast
  moreover from here enhance_rich have "\<exists>authors.
      lookup rich_flat ''authors'' = Some (JList authors) \<and>
      list_all2 (\<lambda>auth out. lookup out ''institutions'' =
                   Some (JList (map institution_entry (entries auth ''institutions''))))
        (entries rich_work ''authorships'') authors"
    and "lookup rich_flat ''institutions_count'' =
     Some (JInt (int (card (eq_key ` institution_names rich_work))))"
    by blast+
  moreover have "lookup rich_flat ''institutions_count'' = Some (JInt 2)"
    by (simp add: rich_flat_def lookup_flat_record)
  moreover have "map (\<lambda>auth. length (entries auth ''institutions''))
      (entries rich_work ''authorships'') = [2, 2]"
    by (simp add: rich_work_def entries_def lookup_def)
  moreover from here have
    "flat_field ''institutions_count'' (enhance_work_data unnamed_institutions_work) =
       Some (JInt 0)"
    "map (\<lambda>auth. length (entries auth ''institutions''))
       (entries unnamed_institutions_work ''authorships'') = [2]"
    by blast+
  ultimately show ?thesis by blast
qed

end
